theory Spec2Isabelle
  imports Main "HOL-Library.Word" "HOL-Library.Char_ord" "HOL-Library.List_Lexorder"
begin

unbundle bit_operations_syntax

section \<open>The host: strings, paths, files, processes\<close>

text \<open>
  The two scripts are modelled on a POSIX host. A Python \<open>str\<close> is a \<open>string\<close>
  holding the UTF-8 bytes of the text, so \<open>url.encode()\<close> is the identity on the
  representation. \<open>VERBOSE\<close> is the constant \<open>False\<close> in both scripts, so every
  call of \<open>verbose\<close> returns at once and is left out.
\<close>

subsection \<open>Exceptions\<close>

datatype exn =
  AttributeError | FileNotFoundError | FileExistsError | IsADirectoryError
  | PermissionError | JSONDecodeError | CalledProcessError | IndexError | OSError

fun str_exn :: "exn \<Rightarrow> string" where
  "str_exn AttributeError = ''AttributeError''"
| "str_exn FileNotFoundError = ''FileNotFoundError''"
| "str_exn FileExistsError = ''FileExistsError''"
| "str_exn IsADirectoryError = ''IsADirectoryError''"
| "str_exn PermissionError = ''PermissionError''"
| "str_exn JSONDecodeError = ''JSONDecodeError''"
| "str_exn CalledProcessError = ''CalledProcessError''"
| "str_exn IndexError = ''IndexError''"
| "str_exn OSError = ''OSError''"

subsection \<open>pathlib on POSIX\<close>

text \<open>
  A \<open>Path\<close> object is represented by its \<open>str()\<close>. \<open>Path s\<close> normalises as
  \<open>PurePosixPath\<close> does: runs of slashes collapse, \<open>.\<close> components and a trailing
  slash go, exactly two leading slashes are kept, and the empty path is \<open>.\<close>.
\<close>

fun split_sep :: "string \<Rightarrow> string list" where
  "split_sep [] = [[]]"
| "split_sep (c # cs) =
     (if c = CHR ''/'' then [] # split_sep cs
      else (case split_sep cs of [] \<Rightarrow> [[c]] | p # ps \<Rightarrow> (c # p) # ps))"

fun join_sep :: "string list \<Rightarrow> string" where
  "join_sep [] = []"
| "join_sep [p] = p"
| "join_sep (p # q # ps) = p @ ''/'' @ join_sep (q # ps)"

definition path_root :: "string \<Rightarrow> string" where
  "path_root s =
     (if take 1 s \<noteq> ''/'' then ''''
      else if take 1 (drop 1 s) \<noteq> ''/'' \<or> take 1 (drop 2 s) = ''/'' then ''/''
      else ''//'')"

definition path_parts :: "string \<Rightarrow> string list" where
  "path_parts s = filter (\<lambda>x. x \<noteq> [] \<and> x \<noteq> ''.'') (split_sep s)"

definition Path :: "string \<Rightarrow> string" where
  "Path s =
     (if path_root s = [] \<and> path_parts s = [] then ''.''
      else path_root s @ join_sep (path_parts s))"

definition posix_join :: "string \<Rightarrow> string \<Rightarrow> string" where
  "posix_join a b =
     (if take 1 b = ''/'' then b
      else if a = [] \<or> last a = CHR ''/'' then a @ b
      else a @ ''/'' @ b)"

definition joinpath :: "string \<Rightarrow> string \<Rightarrow> string" where
  "joinpath p s = Path (posix_join p s)"

definition path_name :: "string \<Rightarrow> string" where
  "path_name p = (if path_parts p = [] then [] else last (path_parts p))"

subsection \<open>JSON values and Python dictionaries\<close>

text \<open>
  A JSON value as \<open>json.load\<close> returns it. A \<open>dict\<close> is an association list in
  insertion order, which for a loaded document is the order of the members in the text.
\<close>

datatype json =
  JNull | JBool bool | JInt int | JFloat string | JStr string
  | JArr "json list" | JObj "(string \<times> json) list"

text \<open>\<open>d[k] = v\<close>: an existing key keeps its position, a new key goes to the end.\<close>

fun dict_set :: "string \<Rightarrow> json \<Rightarrow> (string \<times> json) list \<Rightarrow> (string \<times> json) list" where
  "dict_set k v [] = [(k, v)]"
| "dict_set k v (p # ps) = (if fst p = k then (k, v) # ps else p # dict_set k v ps)"

text \<open>
  What \<open>json.dump(..., sort_keys=True)\<close> writes, as the value a later \<open>json.load\<close>
  returns: every dictionary, nested ones too, with its items sorted by key.
\<close>

fun sort_keys :: "json \<Rightarrow> json" where
  "sort_keys (JArr xs) = JArr (map sort_keys xs)"
| "sort_keys (JObj al) = JObj (sort_key fst (map (\<lambda>p. (fst p, sort_keys (snd p))) al))"
| "sort_keys v = v"

subsection \<open>Files\<close>

datatype content = Unparseable | Doc json

datatype fnode = Directory | Regular content

record fsys =
  node :: "string \<Rightarrow> fnode option"
  may_read :: "string \<Rightarrow> bool"
  may_write :: "string \<Rightarrow> bool"

definition path_exists :: "fsys \<Rightarrow> string \<Rightarrow> bool" where
  "path_exists f p = (node f p \<noteq> None)"

definition is_dir :: "fsys \<Rightarrow> string \<Rightarrow> bool" where
  "is_dir f p = (node f p = Some Directory)"

text \<open>\<open>open(p, "r")\<close> followed by \<open>json.load\<close>.\<close>

definition open_read :: "fsys \<Rightarrow> string \<Rightarrow> exn + content" where
  "open_read f p =
     (case node f p of
        None \<Rightarrow> Inl FileNotFoundError
      | Some Directory \<Rightarrow> Inl IsADirectoryError
      | Some (Regular c) \<Rightarrow> if may_read f p then Inr c else Inl PermissionError)"

definition json_load :: "content \<Rightarrow> exn + json" where
  "json_load c = (case c of Unparseable \<Rightarrow> Inl JSONDecodeError | Doc v \<Rightarrow> Inr v)"

subsection \<open>Processes and the observable trace\<close>

text \<open>
  Starting a process either raises or ends with a return code and the text it wrote to
  its standard output. What a process does is not part of the scripts: it is the field
  \<open>exec\<close> of the world, a function of the argument vector and the file system.
\<close>

datatype proc_result = Raised exn | Exited int string

datatype event =
  Stdout string | Stderr string | Logged string | Wrote string | Ran "string list"

record world =
  fs :: fsys
  exec :: "string list \<Rightarrow> fsys \<Rightarrow> proc_result \<times> fsys"
  trace :: "event list"

definition emit :: "event list \<Rightarrow> world \<Rightarrow> world" where
  "emit es w = w\<lparr>trace := trace w @ es\<rparr>"

definition run_process :: "string list \<Rightarrow> world \<Rightarrow> proc_result \<times> world" where
  "run_process argv w =
     (let (r, f) = exec w argv (fs w)
      in (r, emit [Ran argv] (w\<lparr>fs := f\<rparr>)))"

text \<open>\<open>open(p, "w")\<close> followed by \<open>json.dump(v, f, indent=2, sort_keys=True)\<close>.\<close>

definition write_json :: "string \<Rightarrow> json \<Rightarrow> world \<Rightarrow> exn + world" where
  "write_json p v w =
     (if node (fs w) p = Some Directory then Inl IsADirectoryError
      else if \<not> may_write (fs w) p then Inl PermissionError
      else Inr (emit [Wrote p]
             (w\<lparr>fs := (fs w)\<lparr>node := (node (fs w))(p \<mapsto> Regular (Doc (sort_keys v)))\<rparr>\<rparr>)))"

section \<open>populate\_git\_clone\_cache.py\<close>

definition info :: "string \<Rightarrow> bool \<Rightarrow> world \<Rightarrow> world" where
  "info msg log_file w =
     (let formatted = ''[populate_git_clone_cache][INFO] '' @ msg
      in emit (Stdout formatted # (if log_file then [Logged formatted] else [])) w)"

definition error :: "string \<Rightarrow> bool \<Rightarrow> world \<Rightarrow> world" where
  "error msg log_file w =
     (let formatted = ''[populate_git_clone_cache][ERROR] '' @ msg
      in emit (Stderr formatted # (if log_file then [Logged formatted] else [])) w)"

text \<open>
  \<open>update_directory_json\<close>. \<open>mapping\<close> starts as the empty dictionary and stays so
  when the file is missing or reading it raises. \<open>mapping.get\<close> exists on a
  dictionary only: any other loaded value raises \<open>AttributeError\<close>, which no handler
  of the function catches.
\<close>

definition read_mapping :: "string \<Rightarrow> bool \<Rightarrow> world \<Rightarrow> json \<times> world" where
  "read_mapping directory_json_path log_file w =
     (if path_exists (fs w) directory_json_path then
        (case open_read (fs w) directory_json_path of
           Inl e \<Rightarrow> (JObj [], error (''Failed to read directory.json: '' @ str_exn e) log_file w)
         | Inr c \<Rightarrow>
             (case json_load c of
                Inl e \<Rightarrow>
                  (JObj [], error (''Failed to read directory.json: '' @ str_exn e) log_file w)
              | Inr v \<Rightarrow> (v, w)))
      else (JObj [], w))"

definition update_directory_json ::
  "string \<Rightarrow> string \<Rightarrow> string \<Rightarrow> bool \<Rightarrow> world \<Rightarrow> exn + world" where
  "update_directory_json cache_dir url cache_key log_file w =
     (let directory_json_path = joinpath cache_dir ''directory.json'';
          (mapping, w1) = read_mapping directory_json_path log_file w
      in case mapping of
           JObj items \<Rightarrow>
             if map_of items url \<noteq> Some (JStr cache_key) then
               (case write_json directory_json_path
                       (JObj (dict_set url (JStr cache_key) items)) w1 of
                  Inr w2 \<Rightarrow> Inr (info (''Updated directory.json for '' @ url) log_file w2)
                | Inl e \<Rightarrow>
                    Inr (error (''Failed to write directory.json: '' @ str_exn e) log_file w1))
             else Inr w1
         | _ \<Rightarrow> Inl AttributeError)"



subsection \<open>The host parameters\<close>

text \<open>
  What the script asks of its libraries and its environment: \<open>hashlib.sha256\<close> (the
  digest as bytes), the directory of the script, \<open>shutil.which("git")\<close>,
  \<open>Path.resolve\<close>, \<open>os.access(p, os.X_OK)\<close>, the variable
  \<open>GIT_CLONE_CACHE_DIR\<close> and the expansion of \<open>~/.git-clone-cache\<close>.
\<close>

record host =
  sha256 :: "string \<Rightarrow> 8 word list"
  script_dir :: string
  which_git :: "string option"
  resolve :: "string \<Rightarrow> string"
  access_x :: "string \<Rightarrow> bool"
  environ_cache_dir :: "string option"
  home_cache_dir :: string

definition hexchar :: "nat \<Rightarrow> char" where
  "hexchar d = ''0123456789abcdef'' ! d"

definition hex_byte :: "8 word \<Rightarrow> string" where
  "hex_byte b = [hexchar (unat b div 16), hexchar (unat b mod 16)]"

definition hexdigest :: "8 word list \<Rightarrow> string" where
  "hexdigest bs = concat (map hex_byte bs)"

fun str_nat :: "nat \<Rightarrow> string" where
  "str_nat n =
     (if n < 10 then [hexchar n] else str_nat (n div 10) @ [hexchar (n mod 10)])"

definition str_int :: "int \<Rightarrow> string" where
  "str_int i = (if i < 0 then ''-'' @ str_nat (nat (- i)) else str_nat (nat i))"

fun join_space :: "string list \<Rightarrow> string" where
  "join_space [] = []"
| "join_space [p] = p"
| "join_space (p # q # ps) = p @ '' '' @ join_space (q # ps)"

text \<open>\<open>str.strip()\<close>, for the ASCII white space.\<close>

definition isspace :: "char \<Rightarrow> bool" where
  "isspace c = (of_char c \<in> {9, 10, 11, 12, 13, 28, 29, 30, 31, 32 :: nat})"

definition strip :: "string \<Rightarrow> string" where
  "strip s = rev (dropWhile isspace (rev (dropWhile isspace s)))"

subsection \<open>The functions of the script\<close>

definition find_real_git :: "host \<Rightarrow> string option" where
  "find_real_git h =
     (let wrapper_path = joinpath (joinpath (script_dir h) ''out'') ''git'';
          wrapper_resolved = resolve h wrapper_path
      in case which_git h of
           None \<Rightarrow> None
         | Some git_path \<Rightarrow>
             if git_path \<noteq> [] \<and> resolve h (Path git_path) \<noteq> wrapper_resolved
             then Some git_path else None)"

text \<open>
  \<open>get_origin_url\<close> catches \<open>CalledProcessError\<close> and \<open>FileNotFoundError\<close> only;
  any other exception of \<open>subprocess.run\<close> leaves the function.
\<close>

definition get_origin_url :: "string \<Rightarrow> string \<Rightarrow> world \<Rightarrow> exn + (string option \<times> world)" where
  "get_origin_url repo_path real_git w =
     (let w1 = info (''Getting origin URL for repo: '' @ repo_path) False w
      in case run_process [real_git, ''-C'', repo_path, ''remote'', ''get-url'', ''origin''] w1 of
           (Exited returncode out, w2) \<Rightarrow>
             Inr (if returncode = 0 then Some (strip out) else None, w2)
         | (Raised e, w2) \<Rightarrow>
             if e = CalledProcessError \<or> e = FileNotFoundError
             then Inr (None, error (''Exception while getting origin URL: '' @ str_exn e) False w2)
             else Inl e)"

definition compute_cache_key :: "host \<Rightarrow> string \<Rightarrow> world \<Rightarrow> string \<times> world" where
  "compute_cache_key h url w =
     (let w1 = info (''Computing cache key for URL: '' @ url) False w;
          key = hexdigest (sha256 h url)
      in (key, info (''Cache key: '' @ key) False w1))"

definition is_local_repo :: "string \<Rightarrow> world \<Rightarrow> bool" where
  "is_local_repo path w =
     (is_dir (fs w) (Path path) \<and> path_exists (fs w) (joinpath (Path path) ''.git''))"

text \<open>
  \<open>run_git_command\<close>: \<open>Popen\<close> and \<open>wait\<close>. Every exception is caught and gives
  \<open>False\<close>, as a return code other than 0 does. With a log file the streams handed
  to \<open>Popen\<close> are \<open>Tee\<close> objects, which have no \<open>fileno\<close>; what \<open>Popen\<close>
  makes of them is part of \<open>exec\<close>, as one of its \<open>Raised\<close> results.
\<close>

definition run_git_command :: "string \<Rightarrow> string list \<Rightarrow> bool \<Rightarrow> world \<Rightarrow> bool \<times> world" where
  "run_git_command cmd args log_file w =
     (let w1 = info (''Running git command: '' @ cmd @ '' '' @ join_space args) log_file w
      in case run_process (cmd # args) w1 of
           (Exited returncode out, w2) \<Rightarrow>
             if returncode = 0 then (True, w2)
             else (False,
                   error (''Command failed with return code '' @ str_int returncode) log_file w2)
         | (Raised e, w2) \<Rightarrow> (False, error (''Command failed: '' @ str_exn e) log_file w2))"

definition set_origin_url :: "string \<Rightarrow> string \<Rightarrow> string \<Rightarrow> bool \<Rightarrow> world \<Rightarrow> bool \<times> world" where
  "set_origin_url cache_mirror real_git url log_file w =
     run_git_command real_git [''-C'', cache_mirror, ''remote'', ''set-url'', ''origin'', url]
       log_file (info (''Setting origin URL for cache mirror: '' @ cache_mirror) log_file w)"

definition populate_cache ::
  "string \<Rightarrow> string \<Rightarrow> string \<Rightarrow> string \<Rightarrow> string \<Rightarrow> bool \<Rightarrow> world \<Rightarrow> exn + (bool \<times> world)" where
  "populate_cache url cache_mirror real_git source_for_clone cache_dir log_file w =
     (if path_exists (fs w) cache_mirror then
        (let w1 = info (''Updating: '' @ url) log_file w;
             (updated, w2) =
                run_git_command real_git [''-C'', cache_mirror, ''fetch'', ''--all''] log_file w1;
             (_, w3) = set_origin_url cache_mirror real_git url log_file w2
         in case update_directory_json cache_dir url (path_name cache_mirror) log_file w3 of
              Inl e \<Rightarrow> Inl e
            | Inr w4 \<Rightarrow>
                if updated then Inr (True, w4)
                else Inr (False, error (''Failed to update cache for '' @ url) log_file w4))
      else
        (let w1 = info (''Caching: '' @ url) log_file w;
             (cloned, w2) =
                run_git_command real_git [''clone'', ''--mirror'', source_for_clone, cache_mirror]
                  log_file w1
         in if cloned then
              (let w3 = info (''  -> '' @ cache_mirror) log_file w2;
                   (_, w4) = set_origin_url cache_mirror real_git url log_file w3
               in case update_directory_json cache_dir url (path_name cache_mirror) log_file w4 of
                    Inl e \<Rightarrow> Inl e
                  | Inr w5 \<Rightarrow> Inr (True, w5))
            else Inr (False, error (''Failed to cache '' @ url) log_file w2)))"

text \<open>
  \<open>mkdir(parents=True, exist_ok=True)\<close>. The ancestors it creates on the way are never
  looked at by the script and are not recorded.
\<close>

definition mkdir_parents :: "string \<Rightarrow> world \<Rightarrow> exn + world" where
  "mkdir_parents p w =
     (case node (fs w) p of
        Some Directory \<Rightarrow> Inr w
      | Some (Regular c) \<Rightarrow> Inl FileExistsError
      | None \<Rightarrow>
          if may_write (fs w) p
          then Inr (w\<lparr>fs := (fs w)\<lparr>node := (node (fs w))(p \<mapsto> Directory)\<rparr>\<rparr>)
          else Inl PermissionError)"

definition path_parent :: "string \<Rightarrow> string" where
  "path_parent p =
     (if path_parts p = [] then p
      else if path_root p = [] \<and> butlast (path_parts p) = [] then ''.''
      else path_root p @ join_sep (butlast (path_parts p)))"

text \<open>\<open>open(log_path, "a")\<close> creates the file when it is missing.\<close>

definition get_log_file :: "string \<Rightarrow> world \<Rightarrow> exn + world" where
  "get_log_file cache_dir w =
     (let log_path = joinpath cache_dir ''populate_git_clone_cache.log''
      in case mkdir_parents (path_parent log_path) w of
           Inl e \<Rightarrow> Inl e
         | Inr w1 \<Rightarrow>
             (case node (fs w1) log_path of
                Some Directory \<Rightarrow> Inl IsADirectoryError
              | Some (Regular c) \<Rightarrow> if may_write (fs w1) log_path then Inr w1 else Inl PermissionError
              | None \<Rightarrow>
                  if may_write (fs w1) log_path
                  then Inr (w1\<lparr>fs := (fs w1)\<lparr>node := (node (fs w1))(log_path \<mapsto> Regular Unparseable)\<rparr>\<rparr>)
                  else Inl PermissionError))"

text \<open>The body of the loop of \<open>main\<close>; a \<open>continue\<close> is an early result.\<close>

definition process_arg :: "host \<Rightarrow> string \<Rightarrow> string \<Rightarrow> string \<Rightarrow> world \<Rightarrow> exn + world" where
  "process_arg h real_git cache_dir arg w =
     (let arg_path = Path arg;
          cache = (\<lambda>url source_for_clone w0.
             (let (cache_key, w1) = compute_cache_key h url w0;
                  cache_mirror = joinpath cache_dir cache_key
              in case populate_cache url cache_mirror real_git source_for_clone cache_dir True w1 of
                   Inl e \<Rightarrow> Inl e
                 | Inr (ok, w2) \<Rightarrow> Inr w2))
      in if \<not> path_exists (fs w) arg_path then
           Inr (error (''Path does not exist: '' @ arg) True w)
         else if is_local_repo arg w then
           (case get_origin_url arg_path real_git w of
              Inl e \<Rightarrow> Inl e
            | Inr (None, w1) \<Rightarrow>
                Inr (error (''WARNING: No origin remote in '' @ arg @ '', skipping'') True w1)
            | Inr (Some url, w1) \<Rightarrow>
                if url = [] then
                  Inr (error (''WARNING: No origin remote in '' @ arg @ '', skipping'') True w1)
                else cache url arg w1)
         else if is_dir (fs w) arg_path then
           Inr (error (''Not a git repo: '' @ arg) True w)
         else cache arg arg w)"

fun process_args :: "host \<Rightarrow> string \<Rightarrow> string \<Rightarrow> string list \<Rightarrow> world \<Rightarrow> exn + world" where
  "process_args h real_git cache_dir [] w = Inr w"
| "process_args h real_git cache_dir (arg # args) w =
     (case process_arg h real_git cache_dir arg w of
        Inl e \<Rightarrow> Inl e
      | Inr w1 \<Rightarrow> process_args h real_git cache_dir args w1)"

text \<open>
  How \<open>main\<close> ends: it returns, it calls \<open>sys.exit\<close>, or an exception that nothing
  catches ends the interpreter, whose exit code is then 1.
\<close>

datatype outcome = Returned world | SysExit int world | Uncaught exn

fun exit_code :: "outcome \<Rightarrow> int" where
  "exit_code (Returned w) = 0"
| "exit_code (SysExit n w) = n"
| "exit_code (Uncaught e) = 1"

definition usable_git :: "host \<Rightarrow> string option" where
  "usable_git h =
     (case find_real_git h of
        None \<Rightarrow> None
      | Some real_git \<Rightarrow> if real_git \<noteq> [] \<and> access_x h real_git then Some real_git else None)"

definition main :: "host \<Rightarrow> string list \<Rightarrow> world \<Rightarrow> outcome" where
  "main h argv w =
     (let real_git = find_real_git h;
          w1 = info (''real_git resolved to: '' @ (case real_git of None \<Rightarrow> ''None'' | Some g \<Rightarrow> g))
                 False w
      in case usable_git h of
           None \<Rightarrow>
             SysExit 1 (error ''Exiting due to missing git binary.'' False
                         (error ''Could not find git binary'' False w1))
         | Some real_git \<Rightarrow>
             (let cache_dir =
                    Path (case environ_cache_dir h of
                            None \<Rightarrow> home_cache_dir h
                          | Some d \<Rightarrow> if d \<noteq> [] then d else home_cache_dir h)
              in case mkdir_parents cache_dir w1 of
                   Inl e \<Rightarrow> Uncaught e
                 | Inr w2 \<Rightarrow>
                     (case get_log_file cache_dir w2 of
                        Inl e \<Rightarrow> Uncaught e
                      | Inr w3 \<Rightarrow>
                          if length argv < 2 then
                            (case argv of
                               [] \<Rightarrow> Uncaught IndexError
                             | prog # _ \<Rightarrow>
                                 SysExit 1
                                   (emit [Logged ''Exiting due to missing arguments.'']
                                     (error (''Usage: '' @ path_name (Path prog)
                                             @ '' /path/to/repo1 [/path/to/repo2 ...] [https://url ...]'')
                                        False w3)))
                          else
                            (case process_args h real_git cache_dir (tl argv) w3 of
                               Inl e \<Rightarrow> Uncaught e
                             | Inr w4 \<Rightarrow>
                                 Returned (emit [Logged ''Done.''] (info ''Done.'' True w4))))))"

section \<open>find\_and\_populate\_git\_clone\_cache.py\<close>

text \<open>
  The tree under the root as \<open>os.walk\<close> meets it. The entries of a directory are in
  the order of \<open>os.scandir\<close>. \<open>Link e\<close> is a symbolic link whose target is \<open>e\<close>,
  \<open>Broken\<close> one whose target is missing. \<open>NoAccess\<close> is a directory that cannot be
  listed: \<open>os.walk\<close> skips it without a word.
\<close>

datatype entry =
  File | Dir "(string \<times> entry) list" | NoAccess | Link entry | Broken

text \<open>\<open>DirEntry.is_dir()\<close> follows symbolic links; \<open>os.path.islink\<close> does not.\<close>

fun entry_is_dir :: "entry \<Rightarrow> bool" where
  "entry_is_dir (Dir es) = True"
| "entry_is_dir NoAccess = True"
| "entry_is_dir (Link e) = entry_is_dir e"
| "entry_is_dir e = False"

fun islink :: "entry \<Rightarrow> bool" where
  "islink (Link e) = True"
| "islink Broken = True"
| "islink e = False"

text \<open>
  The filter of \<open>dirs[:] = [...]\<close>. The log lines of the loop are left out of the
  model of this script.
\<close>

definition keep :: "string \<times> entry \<Rightarrow> bool" where
  "keep d = (fst d \<notin> {''.git'', ''node_modules''} \<and> \<not> islink (snd d))"

text \<open>
  \<open>os.walk(top, followlinks=False)\<close> with the pruning of the loop body applied to
  \<open>dirs\<close> before the descent: the list of the \<open>(root, dirs)\<close> it yields. \<open>scandir\<close>
  lists the target when the top itself is a link; below the top, \<open>os.walk\<close> enters a
  directory of \<open>dirs\<close> only when it is not a link.
\<close>

fun walk :: "string \<Rightarrow> entry \<Rightarrow> (string \<times> (string \<times> entry) list) list" where
  "walk dirpath (Dir es) =
     (dirpath, filter (\<lambda>d. entry_is_dir (snd d)) es) #
     concat (map (\<lambda>d. if islink (snd d) then [] else walk (posix_join dirpath (fst d)) (snd d))
               (filter keep (filter (\<lambda>d. entry_is_dir (snd d)) es)))"
| "walk dirpath (Link e) = walk dirpath e"
| "walk dirpath e = []"

definition loop_body :: "string list \<Rightarrow> string \<times> (string \<times> entry) list \<Rightarrow> string list" where
  "loop_body repos y =
     (let root = fst y; dirs = snd y;
          repos1 = (if ''.git'' \<in> set (map fst dirs) then repos @ [root] else repos);
          dirs' = filter keep dirs
      in if ''.git'' \<in> set (map fst dirs') then repos1 @ [root] else repos1)"

definition find_repos :: "string \<Rightarrow> entry \<Rightarrow> string list" where
  "find_repos root_dir t = foldl loop_body [] (walk root_dir t)"

section \<open>Observations used in the statements\<close>

definition index_of :: "fsys \<Rightarrow> string \<Rightarrow> (string \<times> json) list option" where
  "index_of f p =
     (case open_read f p of
        Inr (Doc (JObj items)) \<Rightarrow> Some items
      | _ \<Rightarrow> None)"

definition same_json :: "json \<Rightarrow> json \<Rightarrow> bool" where
  "same_json a b = (sort_keys a = sort_keys b)"


text \<open>What a directory lists, through a link when the entry is one.\<close>

fun listing :: "entry \<Rightarrow> (string \<times> entry) list option" where
  "listing (Dir es) = Some es"
| "listing (Link e) = listing e"
| "listing e = None"

text \<open>
  \<open>clean t ds e\<close>: the entry \<open>e\<close> lies under \<open>t\<close> at the names \<open>ds\<close>, none of the
  names is \<open>.git\<close> or \<open>node_modules\<close>, and no entry on the way below \<open>t\<close> is a
  symbolic link.
\<close>

inductive clean :: "entry \<Rightarrow> string list \<Rightarrow> entry \<Rightarrow> bool" for t where
  clean_top: "clean t [] t"
| clean_step:
    "clean t ds e \<Longrightarrow> listing e = Some es \<Longrightarrow> (d, c) \<in> set es \<Longrightarrow> d \<noteq> ''.git'' \<Longrightarrow>
     d \<noteq> ''node_modules'' \<Longrightarrow> \<not> islink c \<Longrightarrow> clean t (ds @ [d]) c"

code_pred clean .

text \<open>A tree of a real file system: the names in a directory differ, none is empty, none
  holds a slash.\<close>

fun wf_entry :: "entry \<Rightarrow> bool" where
  "wf_entry (Dir es) =
     (distinct (map fst es)
      \<and> (\<forall>d \<in> set es. fst d \<noteq> [] \<and> CHR ''/'' \<notin> set (fst d) \<and> wf_entry (snd d)))"
| "wf_entry (Link e) = wf_entry e"
| "wf_entry e = True"

definition slashed :: "string \<Rightarrow> string" where
  "slashed p = (if p = [] \<or> last p = CHR ''/'' then p else p @ ''/'')"

definition has_git :: "string \<times> (string \<times> entry) list \<Rightarrow> bool" where
  "has_git y = (''.git'' \<in> set (map fst (snd y)))"

definition demo_tree :: entry where
  "demo_tree =
     Dir [(''a'', Dir [(''.git'', Dir []), (''node_modules'', Dir [(''dep'', Dir [(''.git'', Dir [])])])]),
          (''l'', Link (Dir [(''.git'', Dir [])])),
          (''b'', Dir [(''c'', Dir [(''.git'', Dir []), (''f'', File)])])]"

definition git_runs :: "world \<Rightarrow> string list list" where
  "git_runs w = concat (map (\<lambda>e. case e of Ran argv \<Rightarrow> [argv] | _ \<Rightarrow> []) (trace w))"

definition writes :: "world \<Rightarrow> string list" where
  "writes w = concat (map (\<lambda>e. case e of Wrote p \<Rightarrow> [p] | _ \<Rightarrow> []) (trace w))"

definition index_entry :: "fsys \<Rightarrow> string \<Rightarrow> string \<Rightarrow> json option" where
  "index_entry f p u =
     (case node f p of
        Some (Regular (Doc (JObj items))) \<Rightarrow> map_of items u
      | _ \<Rightarrow> None)"

text \<open>
  A host for the examples. Its digest function is a stand-in (the first 32 bytes of the
  message): the examples do not depend on the digest that is computed.
\<close>

definition demo_host :: host where
  "demo_host =
     \<lparr>sha256 = (\<lambda>s. map (\<lambda>c. of_nat (of_char c)) (take 32 s)),
      script_dir = ''/opt/tool'',
      which_git = Some ''/usr/bin/git'',
      resolve = (\<lambda>p. p),
      access_x = (\<lambda>p. p = ''/usr/bin/git''),
      environ_cache_dir = Some ''/c'',
      home_cache_dir = ''/home/u/.git-clone-cache''\<rparr>"

definition succeeds :: "world \<Rightarrow> string list \<Rightarrow> bool" where
  "succeeds w argv = (case fst (exec w argv (fs w)) of Exited rc out \<Rightarrow> rc = 0 | Raised e \<Rightarrow> False)"

definition write_failure_reported :: "world \<Rightarrow> bool" where
  "write_failure_reported w =
     (\<exists>e. Stderr (''[populate_git_clone_cache][ERROR] Failed to write directory.json: '' @ str_exn e)
            \<in> set (trace w))"

definition index_attempted :: "string \<Rightarrow> string \<Rightarrow> string \<Rightarrow> world \<Rightarrow> bool" where
  "index_attempted cache_dir url key w =
     (index_entry (fs w) (joinpath cache_dir ''directory.json'') url = Some (JStr key)
      \<or> write_failure_reported w)"

definition demo_items :: "(string \<times> json) list" where
  "demo_items = [(''https://b.example/r.git'', JStr ''k2''), (''https://a.example/r.git'', JStr ''k1'')]"

definition demo_fs :: fsys where
  "demo_fs =
     \<lparr>node = [''/c'' \<mapsto> Directory, ''/c/directory.json'' \<mapsto> Regular (Doc (JObj demo_items))],
      may_read = (\<lambda>_. True), may_write = (\<lambda>_. True)\<rparr>"

definition demo_world :: world where
  "demo_world = \<lparr>fs = demo_fs, exec = (\<lambda>argv f. (Exited 128 [], f)), trace = []\<rparr>"

definition mirror_world :: world where
  "mirror_world =
     \<lparr>fs = demo_fs\<lparr>node := (node demo_fs)(''/c/m'' \<mapsto> Directory)\<rparr>,
      exec = (\<lambda>argv f. (Exited 0 [], f)), trace = []\<rparr>"

definition no_origin_world :: world where
  "no_origin_world =
     \<lparr>fs = demo_fs\<lparr>node := (node demo_fs)(''/home/u/r'' \<mapsto> Directory, ''/home/u/r/.git'' \<mapsto> Directory)\<rparr>,
      exec = (\<lambda>argv f. (Exited 2 [], f)), trace = []\<rparr>"


section \<open>The directory index\<close>

lemma map_of_insort_key:
  "map_of (insort_key fst x ys) k = map_of (x # ys) k"
  by (induction ys) auto

lemma map_of_sort_key: "map_of (sort_key fst xs) k = map_of xs k"
  by (induction xs) (simp_all add: map_of_insort_key)

lemma map_of_map_snd:
  "map_of (map (\<lambda>p. (fst p, f (snd p))) xs) k = map_option f (map_of xs k)"
  by (induction xs) auto

lemma map_of_dict_set: "map_of (dict_set k v al) k' = (if k' = k then Some v else map_of al k')"
  by (induction al) auto

lemma keys_dict_set: "fst ` set (dict_set k v al) = insert k (fst ` set al)"
  by (induction al) auto

lemma insort_key_map_fst:
  assumes "\<And>p. fst (g p) = fst p"
  shows "map g (insort_key fst x ys) = insort_key fst (g x) (map g ys)"
  by (induction ys) (simp_all add: assms)

lemma sort_key_map_fst:
  assumes "\<And>p. fst (g p) = fst p"
  shows "map g (sort_key fst xs) = sort_key fst (map g xs)"
  by (induction xs) (simp_all add: insort_key_map_fst [OF assms])

lemma sort_keys_idem: "sort_keys (sort_keys v) = sort_keys v"
proof (induction v rule: sort_keys.induct)
  case (2 al)
  let ?g = "\<lambda>p. (fst p, sort_keys (snd p))"
  have "map (?g \<circ> ?g) al = map ?g al"
    using 2 by (intro map_cong) auto
  then have g: "map ?g (map ?g al) = map ?g al"
    by (simp only: map_map)
  have "sort_key fst (map ?g (sort_key fst (map ?g al))) = sort_key fst (sort_key fst (map ?g (map ?g al)))"
    by (simp add: sort_key_map_fst [where g = ?g])
  also have "\<dots> = sort_key fst (map ?g al)"
    unfolding g by (simp add: sort_key_id_if_sorted)
  finally show ?case by simp
qed simp_all


lemma same_json_refl: "same_json v v"
  by (simp add: same_json_def)

lemma same_json_sort_keys: "same_json (sort_keys v) v"
  by (simp add: same_json_def sort_keys_idem)

lemma same_json_JStr: "same_json v (JStr s) \<longleftrightarrow> v = JStr s"
  by (cases v) (auto simp: same_json_def)

lemma index_of_SomeD:
  assumes "index_of f p = Some items"
  shows "node f p = Some (Regular (Doc (JObj items)))" and "may_read f p"
  using assms
  by (auto simp: index_of_def open_read_def
           split: option.splits fnode.splits if_splits sum.splits content.splits json.splits)

lemma index_of_SomeI:
  "node f p = Some (Regular (Doc (JObj items))) \<Longrightarrow> may_read f p \<Longrightarrow> index_of f p = Some items"
  by (simp add: index_of_def open_read_def)

lemma read_mapping_index:
  assumes "index_of (fs w) p = Some items"
  shows "read_mapping p lf w = (JObj items, w)"
  using index_of_SomeD [OF assms]
  by (simp add: read_mapping_def path_exists_def open_read_def json_load_def)

lemma fs_emit [simp]: "fs (emit es w) = fs w"
  by (simp add: emit_def)

lemma fs_info [simp]: "fs (info m lf w) = fs w"
  by (simp add: info_def Let_def)

lemma fs_error [simp]: "fs (error m lf w) = fs w"
  by (simp add: error_def Let_def)

lemma index_update_frame:
  assumes "index_of (fs w) (joinpath cache_dir ''directory.json'') = Some items"
  shows "\<exists>w' items'.
           update_directory_json cache_dir u k lf w = Inr w'
         \<and> index_of (fs w') (joinpath cache_dir ''directory.json'') = Some items'
         \<and> (\<forall>u'. u' \<noteq> u \<longrightarrow> rel_option same_json (map_of items' u') (map_of items u'))
         \<and> fst ` set items \<subseteq> fst ` set items'
         \<and> fst ` set items' \<subseteq> insert u (fst ` set items)"
proof -
  let ?p = "joinpath cache_dir ''directory.json''"
  let ?new = "dict_set u (JStr k) items"
  let ?g = "\<lambda>p. (fst p, sort_keys (snd p))"
  note rd = read_mapping_index [OF assms, of lf]
  note nd = index_of_SomeD [OF assms]
  have refl: "rel_option same_json x x" for x
    by (cases x) (simp_all add: same_json_refl)
  show ?thesis
  proof (cases "map_of items u = Some (JStr k)")
    case True
    then have "update_directory_json cache_dir u k lf w = Inr w"
      by (simp add: update_directory_json_def rd Let_def)
    with assms refl show ?thesis by auto
  next
    case differs: False
    show ?thesis
    proof (cases "may_write (fs w) ?p")
      case False
      then have "update_directory_json cache_dir u k lf w =
          Inr (error (''Failed to write directory.json: '' @ str_exn PermissionError) lf w)"
        using differs nd by (simp add: update_directory_json_def rd write_json_def Let_def)
      with assms refl show ?thesis by auto
    next
      case True
      let ?items' = "sort_key fst (map ?g ?new)"
      let ?w2 = "emit [Wrote ?p]
             (w\<lparr>fs := (fs w)\<lparr>node := (node (fs w))(?p \<mapsto> Regular (Doc (sort_keys (JObj ?new))))\<rparr>\<rparr>)"
      have upd: "update_directory_json cache_dir u k lf w =
          Inr (info (''Updated directory.json for '' @ u) lf ?w2)"
        using differs nd True by (simp add: update_directory_json_def rd write_json_def Let_def)
      have idx: "index_of (fs (info (''Updated directory.json for '' @ u) lf ?w2)) ?p = Some ?items'"
        using nd by (intro index_of_SomeI) simp_all
      have other: "rel_option same_json (map_of ?items' u') (map_of items u')" if "u' \<noteq> u" for u'
        using that
        by (cases "map_of items u'")
           (simp_all add: map_of_sort_key map_of_map_snd map_of_dict_set same_json_sort_keys)
      have keys: "fst ` set ?items' = insert u (fst ` set items)"
      proof -
        have "fst ` set ?items' = fst ` set ?new"
          by (simp add: image_image)
        then show ?thesis by (simp only: keys_dict_set)
      qed
      from upd idx other keys show ?thesis by blast
    qed
  qed
qed

text \<open>
  C10. When the index file is present, readable and holds a JSON object, an update for
  the URL \<open>u\<close> with the key \<open>k\<close> returns normally, the file still holds an object,
  every entry under another URL has the same JSON value as before, no key disappears and
  no key other than \<open>u\<close> appears.
\<close>

theorem index_update_preserves_other_entries:
  assumes "index_of (fs w) (joinpath cache_dir ''directory.json'') = Some items"
  shows "\<exists>w' items'.
           update_directory_json cache_dir u k lf w = Inr w'
         \<and> index_of (fs w') (joinpath cache_dir ''directory.json'') = Some items'
         \<and> (\<forall>u'. u' \<noteq> u \<longrightarrow> rel_option same_json (map_of items' u') (map_of items u'))
         \<and> fst ` set items \<subseteq> fst ` set items'
         \<and> fst ` set items' \<subseteq> insert u (fst ` set items)"
  using index_update_frame [OF assms] .

lemma joinpath_demo: "joinpath ''/c'' ''directory.json'' = ''/c/directory.json''"
  by (simp add: joinpath_def posix_join_def Path_def path_root_def path_parts_def)

theorem index_update_preserves_other_entries_witness:
  "index_of (fs demo_world) (joinpath ''/c'' ''directory.json'') = Some demo_items
   \<and> (\<exists>w' items'.
         update_directory_json ''/c'' ''https://c.example/r.git'' ''k3'' True demo_world = Inr w'
       \<and> index_of (fs w') (joinpath ''/c'' ''directory.json'') = Some items'
       \<and> map_of items' ''https://a.example/r.git'' = Some (JStr ''k1'')
       \<and> map_of items' ''https://b.example/r.git'' = Some (JStr ''k2''))"
proof -
  have h: "index_of (fs demo_world) (joinpath ''/c'' ''directory.json'') = Some demo_items"
    by (simp add: joinpath_demo index_of_def open_read_def demo_world_def demo_fs_def)
  have a: "map_of demo_items ''https://a.example/r.git'' = Some (JStr ''k1'')"
    and b: "map_of demo_items ''https://b.example/r.git'' = Some (JStr ''k2'')"
    by (simp_all add: demo_items_def)
  from index_update_preserves_other_entries [OF h, of "''https://c.example/r.git''" "''k3''" True]
  obtain w' items' where
    upd: "update_directory_json ''/c'' ''https://c.example/r.git'' ''k3'' True demo_world = Inr w'"
    and idx: "index_of (fs w') (joinpath ''/c'' ''directory.json'') = Some items'"
    and other: "\<forall>u'. u' \<noteq> ''https://c.example/r.git'' \<longrightarrow>
        rel_option same_json (map_of items' u') (map_of demo_items u')"
    by blast
  have nea: "''https://a.example/r.git'' \<noteq> ''https://c.example/r.git''"
    and neb: "''https://b.example/r.git'' \<noteq> ''https://c.example/r.git''"
    by simp_all
  have "rel_option same_json (map_of items' ''https://a.example/r.git'')
          (map_of demo_items ''https://a.example/r.git'')"
    by (rule mp [OF spec [OF other, of "''https://a.example/r.git''"] nea])
  then have "rel_option same_json (map_of items' ''https://a.example/r.git'') (Some (JStr ''k1''))"
    by (simp only: a)
  then have a': "map_of items' ''https://a.example/r.git'' = Some (JStr ''k1'')"
    by (cases "map_of items' ''https://a.example/r.git''") (simp_all only: option.rel_inject option.rel_distinct same_json_JStr)
  have "rel_option same_json (map_of items' ''https://b.example/r.git'')
          (map_of demo_items ''https://b.example/r.git'')"
    by (rule mp [OF spec [OF other, of "''https://b.example/r.git''"] neb])
  then have "rel_option same_json (map_of items' ''https://b.example/r.git'') (Some (JStr ''k2''))"
    by (simp only: b)
  then have b': "map_of items' ''https://b.example/r.git'' = Some (JStr ''k2'')"
    by (cases "map_of items' ''https://b.example/r.git''") (simp_all only: option.rel_inject option.rel_distinct same_json_JStr)
  from h upd idx a' b' show ?thesis by blast
qed

section \<open>The cache key\<close>

lemma hexchar_inj:
  assumes "a < 16" "b < 16" "hexchar a = hexchar b"
  shows "a = b"
proof -
  have d: "distinct ''0123456789abcdef''" by simp
  have l: "length ''0123456789abcdef'' = 16" by simp
  from assms show ?thesis
    unfolding hexchar_def using nth_eq_iff_index_eq [OF d, of a b] l by simp
qed

lemma hex_byte_inj:
  assumes "hex_byte a = hex_byte b"
  shows "a = b"
proof -
  have la: "unat a < 256" and lb: "unat b < 256"
    using unsigned_less [of a, where ?'a = nat] unsigned_less [of b, where ?'a = nat] by simp_all
  then have "unat a div 16 < 16" "unat b div 16 < 16" "unat a mod 16 < 16" "unat b mod 16 < 16"
    by simp_all
  moreover from assms have "hexchar (unat a div 16) = hexchar (unat b div 16)"
    "hexchar (unat a mod 16) = hexchar (unat b mod 16)"
    by (simp_all add: hex_byte_def)
  ultimately have "unat a div 16 = unat b div 16" "unat a mod 16 = unat b mod 16"
    by (blast intro: hexchar_inj)+
  then have "unat a = unat b"
    by (metis div_mult_mod_eq)
  then show ?thesis by (rule word_unat_eq_iff [THEN iffD2])
qed

lemma hexdigest_inj:
  "hexdigest xs = hexdigest ys \<Longrightarrow> xs = ys"
proof (induction xs arbitrary: ys)
  case Nil
  then show ?case by (cases ys) (simp_all add: hexdigest_def hex_byte_def)
next
  case (Cons x xs)
  show ?case
  proof (cases ys)
    case Nil
    with Cons.prems show ?thesis by (simp add: hexdigest_def hex_byte_def)
  next
    case (Cons y ys')
    from Cons.prems have "hex_byte x @ hexdigest xs = hex_byte y @ hexdigest ys'"
      by (simp add: hexdigest_def Cons)
    moreover have "length (hex_byte x) = length (hex_byte y)"
      by (simp add: hex_byte_def)
    ultimately have "hex_byte x = hex_byte y" "hexdigest xs = hexdigest ys'"
      by simp_all
    then show ?thesis
      using Cons.IH hex_byte_inj Cons by simp
  qed
qed

text \<open>
  C3. The key that \<open>compute_cache_key\<close> returns is the hexadecimal digest of the URL,
  whatever the state of the world, and the call leaves the file system alone. Two URLs
  get the same key exactly when their digests are the same.
\<close>

theorem cache_key_is_digest:
  "fst (compute_cache_key h u w) = hexdigest (sha256 h u)
   \<and> fs (snd (compute_cache_key h u w)) = fs w
   \<and> (fst (compute_cache_key h u1 w1) = fst (compute_cache_key h u2 w2)
        \<longleftrightarrow> sha256 h u1 = sha256 h u2)"
  by (auto simp: compute_cache_key_def Let_def dest: hexdigest_inj)

theorem cache_key_is_digest_witness:
  "sha256 demo_host ''ab'' \<noteq> sha256 demo_host ''ac''
   \<and> fst (compute_cache_key demo_host ''ab'' demo_world)
       \<noteq> fst (compute_cache_key demo_host ''ac'' demo_world)
   \<and> fst (compute_cache_key demo_host ''ab'' demo_world) = hexdigest (sha256 demo_host ''ab'')"
proof -
  have d: "sha256 demo_host ''ab'' \<noteq> sha256 demo_host ''ac''"
    by (simp add: demo_host_def)
  from d cache_key_is_digest [of demo_host "''ab''" demo_world "''ab''" demo_world "''ac''" demo_world]
  show ?thesis by blast
qed

section \<open>Creating and refreshing a mirror\<close>

lemma git_runs_emit: "git_runs (emit es w) = git_runs w @ concat (map (\<lambda>e. case e of Ran argv \<Rightarrow> [argv] | _ \<Rightarrow> []) es)"
  by (simp add: git_runs_def emit_def)

lemma writes_emit: "writes (emit es w) = writes w @ concat (map (\<lambda>e. case e of Wrote p \<Rightarrow> [p] | _ \<Rightarrow> []) es)"
  by (simp add: writes_def emit_def)

lemma obs_fs_update [simp]:
  "git_runs (w\<lparr>fs := f\<rparr>) = git_runs w" "writes (w\<lparr>fs := f\<rparr>) = writes w"
  by (simp_all add: git_runs_def writes_def)

lemma exec_emit [simp]: "exec (emit es w) = exec w"
  by (simp add: emit_def)

lemma info_obs [simp]:
  "git_runs (info m lf w) = git_runs w" "writes (info m lf w) = writes w"
  "exec (info m lf w) = exec w"
  by (simp_all add: info_def Let_def git_runs_emit writes_emit)

lemma error_obs [simp]:
  "git_runs (error m lf w) = git_runs w" "writes (error m lf w) = writes w"
  "exec (error m lf w) = exec w"
  by (simp_all add: error_def Let_def git_runs_emit writes_emit)

lemma run_process_obs:
  assumes "run_process argv w = (r, w')"
  shows "git_runs w' = git_runs w @ [argv]" "writes w' = writes w" "exec w' = exec w"
    "r = fst (exec w argv (fs w))" "fs w' = snd (exec w argv (fs w))"
  using assms by (auto simp: run_process_def git_runs_emit writes_emit split: prod.splits)

lemma run_git_command_obs:
  assumes "run_git_command cmd args lf w = (ok, w')"
  shows "git_runs w' = git_runs w @ [cmd # args]" "writes w' = writes w" "exec w' = exec w"
    "ok = succeeds w (cmd # args)" "fs w' = snd (exec w (cmd # args) (fs w))"
proof -
  let ?w1 = "info (''Running git command: '' @ cmd @ '' '' @ join_space args) lf w"
  obtain r w2 where rp: "run_process (cmd # args) ?w1 = (r, w2)"
    by (cases "run_process (cmd # args) ?w1")
  note o = run_process_obs [OF rp]
  have w': "w' = w2 \<or> (\<exists>m. w' = error m lf w2)" and ok: "ok = (case r of Exited rc out \<Rightarrow> rc = 0 | Raised e \<Rightarrow> False)"
    using assms rp by (auto simp: run_git_command_def Let_def split: proc_result.splits if_splits)
  from w' o show "git_runs w' = git_runs w @ [cmd # args]" "writes w' = writes w" "exec w' = exec w"
    "fs w' = snd (exec w (cmd # args) (fs w))"
    by auto
  from ok o show "ok = succeeds w (cmd # args)"
    by (simp add: succeeds_def)
qed

lemma set_origin_url_obs:
  assumes "set_origin_url m g u lf w = (ok, w')"
  shows "git_runs w' = git_runs w @ [[g, ''-C'', m, ''remote'', ''set-url'', ''origin'', u]]"
    "writes w' = writes w" "exec w' = exec w"
  using run_git_command_obs [OF assms [unfolded set_origin_url_def]] by simp_all

lemma write_json_obs:
  assumes "write_json p v w = Inr w'"
  shows "git_runs w' = git_runs w" "exec w' = exec w" "writes w' = writes w @ [p]"
  using assms by (auto simp: write_json_def git_runs_emit writes_emit split: if_splits)

lemma read_mapping_obs:
  assumes "read_mapping p lf w = (m, w1)"
  shows "git_runs w1 = git_runs w" "exec w1 = exec w" "writes w1 = writes w" "fs w1 = fs w"
  using assms
  by (auto simp: read_mapping_def split: if_splits sum.splits)

lemma update_directory_json_obs:
  assumes "update_directory_json c u k lf w = Inr w'"
  shows "git_runs w' = git_runs w" "exec w' = exec w"
proof -
  obtain m w1 where rm: "read_mapping (joinpath c ''directory.json'') lf w = (m, w1)"
    by (cases "read_mapping (joinpath c ''directory.json'') lf w")
  note o = read_mapping_obs [OF rm]
  from assms rm o show "git_runs w' = git_runs w" "exec w' = exec w"
    by (auto simp: update_directory_json_def Let_def
             split: json.splits if_splits sum.splits dest: write_json_obs)
qed

lemma populate_cache_runs:
  assumes "populate_cache url cache_mirror real_git source_for_clone cache_dir log_file w = Inr (ok, w')"
  shows "path_exists (fs w) cache_mirror \<longrightarrow>
           git_runs w' = git_runs w @
             [[real_git, ''-C'', cache_mirror, ''fetch'', ''--all''],
              [real_git, ''-C'', cache_mirror, ''remote'', ''set-url'', ''origin'', url]]"
    and "\<not> path_exists (fs w) cache_mirror \<longrightarrow>
           ok = succeeds w [real_git, ''clone'', ''--mirror'', source_for_clone, cache_mirror]
         \<and> git_runs w' = git_runs w @
             [real_git, ''clone'', ''--mirror'', source_for_clone, cache_mirror] #
             (if ok then [[real_git, ''-C'', cache_mirror, ''remote'', ''set-url'', ''origin'', url]]
              else [])"
proof -
  show "path_exists (fs w) cache_mirror \<longrightarrow>
           git_runs w' = git_runs w @
             [[real_git, ''-C'', cache_mirror, ''fetch'', ''--all''],
              [real_git, ''-C'', cache_mirror, ''remote'', ''set-url'', ''origin'', url]]"
  proof
    assume ex: "path_exists (fs w) cache_mirror"
    let ?w1 = "info (''Updating: '' @ url) log_file w"
    obtain updated w2 where f: "run_git_command real_git [''-C'', cache_mirror, ''fetch'', ''--all''] log_file ?w1 = (updated, w2)"
      by (cases "run_git_command real_git [''-C'', cache_mirror, ''fetch'', ''--all''] log_file ?w1")
    obtain x w3 where s: "set_origin_url cache_mirror real_git url log_file w2 = (x, w3)"
      by (cases "set_origin_url cache_mirror real_git url log_file w2")
    from assms ex f s obtain w4 where
      u: "update_directory_json cache_dir url (path_name cache_mirror) log_file w3 = Inr w4"
      and w': "w' = w4 \<or> (\<exists>m. w' = error m log_file w4)"
      by (auto simp: populate_cache_def Let_def split: sum.splits if_splits)
    from w' update_directory_json_obs [OF u] set_origin_url_obs [OF s] run_git_command_obs [OF f]
    show "git_runs w' = git_runs w @
             [[real_git, ''-C'', cache_mirror, ''fetch'', ''--all''],
              [real_git, ''-C'', cache_mirror, ''remote'', ''set-url'', ''origin'', url]]"
      by auto
  qed
next
  show "\<not> path_exists (fs w) cache_mirror \<longrightarrow>
           ok = succeeds w [real_git, ''clone'', ''--mirror'', source_for_clone, cache_mirror]
         \<and> git_runs w' = git_runs w @
             [real_git, ''clone'', ''--mirror'', source_for_clone, cache_mirror] #
             (if ok then [[real_git, ''-C'', cache_mirror, ''remote'', ''set-url'', ''origin'', url]]
              else [])"
  proof
    assume ex: "\<not> path_exists (fs w) cache_mirror"
    let ?w1 = "info (''Caching: '' @ url) log_file w"
    let ?c = "[''clone'', ''--mirror'', source_for_clone, cache_mirror]"
    obtain cloned w2 where f: "run_git_command real_git ?c log_file ?w1 = (cloned, w2)"
      by (cases "run_git_command real_git ?c log_file ?w1")
    note fo = run_git_command_obs [OF f]
    have sc: "cloned = succeeds w (real_git # ?c)"
      using fo(4) by (simp add: succeeds_def)
    show "ok = succeeds w [real_git, ''clone'', ''--mirror'', source_for_clone, cache_mirror]
         \<and> git_runs w' = git_runs w @
             [real_git, ''clone'', ''--mirror'', source_for_clone, cache_mirror] #
             (if ok then [[real_git, ''-C'', cache_mirror, ''remote'', ''set-url'', ''origin'', url]]
              else [])"
    proof (cases cloned)
      case False
      with assms ex f have "ok = False" "w' = error (''Failed to cache '' @ url) log_file w2"
        by (auto simp: populate_cache_def Let_def)
      with fo sc False show ?thesis by simp
    next
      case True
      let ?w3 = "info (''  -> '' @ cache_mirror) log_file w2"
      obtain x w4 where s: "set_origin_url cache_mirror real_git url log_file ?w3 = (x, w4)"
        by (cases "set_origin_url cache_mirror real_git url log_file ?w3")
      from assms ex f s True have ok: "ok = True"
        and u: "update_directory_json cache_dir url (path_name cache_mirror) log_file w4 = Inr w'"
        by (auto simp: populate_cache_def Let_def split: sum.splits)
      from ok True sc update_directory_json_obs [OF u] set_origin_url_obs [OF s] fo
      show ?thesis by simp
    qed
  qed
qed

lemma populate_cache_clone_failed:
  assumes "\<not> path_exists (fs w) m" "\<not> succeeds w [g, ''clone'', ''--mirror'', src, m]"
  shows "populate_cache url m g src c lf w =
           Inr (False, error (''Failed to cache '' @ url) lf
                  (snd (run_git_command g [''clone'', ''--mirror'', src, m] lf
                          (info (''Caching: '' @ url) lf w))))"
proof -
  obtain cloned w2 where f: "run_git_command g [''clone'', ''--mirror'', src, m] lf
      (info (''Caching: '' @ url) lf w) = (cloned, w2)"
    by (cases "run_git_command g [''clone'', ''--mirror'', src, m] lf (info (''Caching: '' @ url) lf w)")
  from run_git_command_obs(4) [OF f] assms(2) have "\<not> cloned"
    by (simp add: succeeds_def)
  with assms(1) f show ?thesis
    by (simp add: populate_cache_def Let_def)
qed

lemma index_entry_written:
  "index_entry (f\<lparr>node := (node f)(p \<mapsto> Regular (Doc (sort_keys (JObj (dict_set u (JStr k) items)))))\<rparr>) p u
     = Some (JStr k)"
  by (simp add: index_entry_def map_of_sort_key map_of_map_snd map_of_dict_set)

lemma write_failure_reported_mono:
  "write_failure_reported w \<Longrightarrow> write_failure_reported (error m lf w)"
  "write_failure_reported w \<Longrightarrow> write_failure_reported (info m lf w)"
  by (auto simp: write_failure_reported_def error_def info_def emit_def Let_def)

lemma update_attempt:
  assumes "update_directory_json c u k lf w = Inr w'"
  shows "index_entry (fs w') (joinpath c ''directory.json'') u = Some (JStr k)
         \<or> write_failure_reported w'"
proof -
  let ?p = "joinpath c ''directory.json''"
  obtain m w1 where rm: "read_mapping ?p lf w = (m, w1)"
    by (cases "read_mapping ?p lf w")
  from assms rm obtain items where m: "m = JObj items"
    by (cases m) (simp_all add: update_directory_json_def Let_def)
  show ?thesis
  proof (cases "map_of items u = Some (JStr k)")
    case True
    with assms rm m have w': "w' = w1" by (simp add: update_directory_json_def Let_def)
    from rm m True have "items \<noteq> []" by auto
    with rm m have "node (fs w) ?p = Some (Regular (Doc (JObj items)))" "w1 = w"
      by (auto simp: read_mapping_def open_read_def json_load_def
               split: if_splits sum.splits option.splits fnode.splits content.splits)
    with True w' show ?thesis by (simp add: index_entry_def)
  next
    case False
    show ?thesis
    proof (cases "write_json ?p (JObj (dict_set u (JStr k) items)) w1")
      case (Inl e)
      with assms rm m False have "w' = error (''Failed to write directory.json: '' @ str_exn e) lf w1"
        by (simp add: update_directory_json_def Let_def)
      then have "write_failure_reported w'"
        by (auto simp: write_failure_reported_def error_def emit_def Let_def)
      then show ?thesis ..
    next
      case (Inr w2)
      with assms rm m False have w': "w' = info (''Updated directory.json for '' @ u) lf w2"
        by (simp add: update_directory_json_def Let_def)
      from Inr have "fs w2 = (fs w1)\<lparr>node := (node (fs w1))(?p \<mapsto> Regular (Doc (sort_keys (JObj (dict_set u (JStr k) items)))))\<rparr>"
        by (auto simp: write_json_def split: if_splits)
      with w' show ?thesis by (simp only: fs_info index_entry_written) simp
    qed
  qed
qed

text \<open>
  C4. When \<open>populate_cache\<close> returns: if the mirror directory exists, the commands it
  ran are the fetch of all remotes in the mirror and then the setting of the origin URL,
  and no clone; if it does not exist, the command is the mirror clone from
  \<open>source_for_clone\<close>, followed by the setting of the origin URL exactly when the
  clone succeeded.
\<close>

theorem populate_cache_actions:
  assumes "populate_cache url cache_mirror real_git source_for_clone cache_dir log_file w = Inr (ok, w')"
  shows "(path_exists (fs w) cache_mirror \<longrightarrow>
           git_runs w' = git_runs w @
             [[real_git, ''-C'', cache_mirror, ''fetch'', ''--all''],
              [real_git, ''-C'', cache_mirror, ''remote'', ''set-url'', ''origin'', url]])
       \<and> (\<not> path_exists (fs w) cache_mirror \<longrightarrow>
           ok = succeeds w [real_git, ''clone'', ''--mirror'', source_for_clone, cache_mirror]
         \<and> git_runs w' = git_runs w @
             [real_git, ''clone'', ''--mirror'', source_for_clone, cache_mirror] #
             (if ok then [[real_git, ''-C'', cache_mirror, ''remote'', ''set-url'', ''origin'', url]]
              else []))"
  using populate_cache_runs [OF assms] by (rule conjI)

text \<open>
  C2, as amended. When \<open>populate_cache\<close> returns, its result is the success of the
  fetch (mirror present) or of the clone (mirror absent). With the mirror present the
  origin URL is set and the index update is made whatever the fetch reported: afterwards
  the index file holds the entry, or the failure to write it was reported. With the
  mirror absent both are done when the clone succeeded; when it failed, the clone is the
  only command and nothing is written.
\<close>

theorem populate_cache_outcome:
  assumes "populate_cache url m g src c lf w = Inr (ok, w')"
  shows "(path_exists (fs w) m \<longrightarrow>
            ok = succeeds w [g, ''-C'', m, ''fetch'', ''--all'']
          \<and> [g, ''-C'', m, ''remote'', ''set-url'', ''origin'', url] \<in> set (git_runs w')
          \<and> index_attempted c url (path_name m) w')
       \<and> (\<not> path_exists (fs w) m \<longrightarrow>
            ok = succeeds w [g, ''clone'', ''--mirror'', src, m]
          \<and> (ok \<longrightarrow> last (git_runs w') = [g, ''-C'', m, ''remote'', ''set-url'', ''origin'', url]
                   \<and> index_attempted c url (path_name m) w')
          \<and> (\<not> ok \<longrightarrow> git_runs w' = git_runs w @ [[g, ''clone'', ''--mirror'', src, m]]
                     \<and> writes w' = writes w))"
proof (intro conjI impI)
  assume ex: "path_exists (fs w) m"
  let ?w1 = "info (''Updating: '' @ url) lf w"
  obtain updated w2 where f: "run_git_command g [''-C'', m, ''fetch'', ''--all''] lf ?w1 = (updated, w2)"
    by (cases "run_git_command g [''-C'', m, ''fetch'', ''--all''] lf ?w1")
  obtain x w3 where s: "set_origin_url m g url lf w2 = (x, w3)"
    by (cases "set_origin_url m g url lf w2")
  from assms ex f s obtain w4 where
    u: "update_directory_json c url (path_name m) lf w3 = Inr w4"
    and w': "w' = w4 \<or> w' = error (''Failed to update cache for '' @ url) lf w4"
    and ok: "ok = updated"
    by (auto simp: populate_cache_def Let_def split: sum.splits if_splits)
  from ok run_git_command_obs(4) [OF f]
  show "ok = succeeds w [g, ''-C'', m, ''fetch'', ''--all'']"
    by (simp add: succeeds_def)
  from populate_cache_runs(1) [OF assms] ex
  show "[g, ''-C'', m, ''remote'', ''set-url'', ''origin'', url] \<in> set (git_runs w')"
    by simp
  from update_attempt [OF u] w' show "index_attempted c url (path_name m) w'"
    by (auto simp: index_attempted_def intro: write_failure_reported_mono)
next
  assume ex: "\<not> path_exists (fs w) m"
  from populate_cache_runs(2) [OF assms] ex
  show "ok = succeeds w [g, ''clone'', ''--mirror'', src, m]" by simp
next
  assume ex: "\<not> path_exists (fs w) m" and ok
  from populate_cache_runs(2) [OF assms] ex \<open>ok\<close>
  show "last (git_runs w') = [g, ''-C'', m, ''remote'', ''set-url'', ''origin'', url]" by simp
  let ?w1 = "info (''Caching: '' @ url) lf w"
  let ?c = "[''clone'', ''--mirror'', src, m]"
  obtain cloned w2 where f: "run_git_command g ?c lf ?w1 = (cloned, w2)"
    by (cases "run_git_command g ?c lf ?w1")
  obtain x w4 where s: "set_origin_url m g url lf (info (''  -> '' @ m) lf w2) = (x, w4)"
    by (cases "set_origin_url m g url lf (info (''  -> '' @ m) lf w2)")
  from assms ex f s \<open>ok\<close> have "update_directory_json c url (path_name m) lf w4 = Inr w'"
    by (auto simp: populate_cache_def Let_def split: sum.splits if_splits)
  from update_attempt [OF this] show "index_attempted c url (path_name m) w'"
    by (simp add: index_attempted_def)
next
  assume ex: "\<not> path_exists (fs w) m" and nok: "\<not> ok"
  from populate_cache_runs(2) [OF assms] ex nok
  show "git_runs w' = git_runs w @ [[g, ''clone'', ''--mirror'', src, m]]" by simp
  let ?w1 = "info (''Caching: '' @ url) lf w"
  let ?c = "[''clone'', ''--mirror'', src, m]"
  obtain cloned w2 where f: "run_git_command g ?c lf ?w1 = (cloned, w2)"
    by (cases "run_git_command g ?c lf ?w1")
  from assms ex f nok have "w' = error (''Failed to cache '' @ url) lf w2"
    by (auto simp: populate_cache_def Let_def split: sum.splits if_splits prod.splits)
  with run_git_command_obs(2) [OF f] show "writes w' = writes w" by simp
qed

lemma demo_world_clone_fails:
  "\<not> path_exists (fs demo_world) ''/c/m''"
  "\<not> succeeds demo_world [''/usr/bin/git'', ''clone'', ''--mirror'', ''https://x.example/r.git'', ''/c/m'']"
  by (simp_all add: path_exists_def demo_world_def demo_fs_def succeeds_def)

theorem populate_cache_clone_failure_counterexample:
  "map_sum id (\<lambda>r. (fst r, git_runs (snd r), writes (snd r),
       index_entry (fs (snd r)) ''/c/directory.json'' ''https://x.example/r.git''))
     (populate_cache ''https://x.example/r.git'' ''/c/m'' ''/usr/bin/git''
        ''https://x.example/r.git'' ''/c'' False demo_world)
   = Inr (False,
          [[''/usr/bin/git'', ''clone'', ''--mirror'', ''https://x.example/r.git'', ''/c/m'']],
          [], None)"
proof -
  let ?r = "run_git_command ''/usr/bin/git'' [''clone'', ''--mirror'', ''https://x.example/r.git'', ''/c/m''] False
              (info (''Caching: '' @ ''https://x.example/r.git'') False demo_world)"
  have r: "?r = (fst ?r, snd ?r)" by simp
  note o = run_git_command_obs [OF r]
  have g: "git_runs demo_world = []" and wr: "writes demo_world = []"
    by (simp_all add: git_runs_def writes_def demo_world_def)
  have f: "fs (snd ?r) = fs demo_world"
    using o(5) by (simp add: demo_world_def)
  have i: "index_entry (fs demo_world) ''/c/directory.json'' ''https://x.example/r.git'' = None"
    by (simp add: index_entry_def demo_world_def demo_fs_def demo_items_def)
  show ?thesis
    unfolding populate_cache_clone_failed [OF demo_world_clone_fails]
    using o(1,2) g wr f i by simp
qed

lemma mirror_world_returns:
  "\<exists>ok w'. populate_cache ''https://x.example/r.git'' ''/c/m'' ''/usr/bin/git''
        ''/home/u/r'' ''/c'' False mirror_world = Inr (ok, w')"
proof -
  let ?w3 = "snd (set_origin_url ''/c/m'' ''/usr/bin/git'' ''https://x.example/r.git'' False
      (snd (run_git_command ''/usr/bin/git'' [''-C'', ''/c/m'', ''fetch'', ''--all''] False
         (info (''Updating: '' @ ''https://x.example/r.git'') False mirror_world))))"
  have "fs ?w3 = fs mirror_world"
    by (simp add: set_origin_url_def run_git_command_def run_process_def mirror_world_def Let_def)
  then have "index_of (fs ?w3) (joinpath ''/c'' ''directory.json'') = Some demo_items"
    by (simp add: joinpath_demo index_of_def open_read_def mirror_world_def demo_fs_def)
  from index_update_frame [OF this, of "''https://x.example/r.git''" "path_name ''/c/m''" False]
  obtain w4 where "update_directory_json ''/c'' ''https://x.example/r.git'' (path_name ''/c/m'') False ?w3 = Inr w4"
    by blast
  moreover have "path_exists (fs mirror_world) ''/c/m''"
    by (simp add: path_exists_def mirror_world_def)
  ultimately show ?thesis
    by (auto simp add: populate_cache_def Let_def case_prod_beta)
qed

theorem populate_cache_outcome_witness:
  "\<not> path_exists (fs demo_world) ''/c/m''
   \<and> (\<exists>w'. populate_cache ''https://x.example/r.git'' ''/c/m'' ''/usr/bin/git''
              ''https://x.example/r.git'' ''/c'' False demo_world = Inr (False, w')
           \<and> writes w' = writes demo_world)
   \<and> path_exists (fs mirror_world) ''/c/m''
   \<and> (\<exists>ok w'. populate_cache ''https://x.example/r.git'' ''/c/m'' ''/usr/bin/git''
              ''/home/u/r'' ''/c'' False mirror_world = Inr (ok, w')
           \<and> ok = succeeds mirror_world [''/usr/bin/git'', ''-C'', ''/c/m'', ''fetch'', ''--all'']
           \<and> index_attempted ''/c'' ''https://x.example/r.git'' (path_name ''/c/m'') w')"
proof -
  have a: "\<not> path_exists (fs demo_world) ''/c/m''"
    by (rule demo_world_clone_fails)
  have b: "path_exists (fs mirror_world) ''/c/m''"
    by (simp add: path_exists_def mirror_world_def)
  let ?w' = "error (''Failed to cache '' @ ''https://x.example/r.git'') False
                  (snd (run_git_command ''/usr/bin/git'' [''clone'', ''--mirror'', ''https://x.example/r.git'', ''/c/m''] False
                          (info (''Caching: '' @ ''https://x.example/r.git'') False demo_world)))"
  have c: "populate_cache ''https://x.example/r.git'' ''/c/m'' ''/usr/bin/git''
              ''https://x.example/r.git'' ''/c'' False demo_world = Inr (False, ?w')"
    by (rule populate_cache_clone_failed [OF demo_world_clone_fails])
  from populate_cache_outcome [OF c] a have c': "writes ?w' = writes demo_world"
    by blast
  from mirror_world_returns obtain ok w' where
    d: "populate_cache ''https://x.example/r.git'' ''/c/m'' ''/usr/bin/git''
              ''/home/u/r'' ''/c'' False mirror_world = Inr (ok, w')"
    by blast
  from populate_cache_outcome [OF d] b
  have "ok = succeeds mirror_world [''/usr/bin/git'', ''-C'', ''/c/m'', ''fetch'', ''--all'']"
    "index_attempted ''/c'' ''https://x.example/r.git'' (path_name ''/c/m'') w'"
    by blast+
  with a b c c' d show ?thesis by blast
qed

theorem populate_cache_actions_witness:
  "path_exists (fs mirror_world) ''/c/m''
   \<and> (\<exists>ok w'. populate_cache ''https://x.example/r.git'' ''/c/m'' ''/usr/bin/git''
              ''/home/u/r'' ''/c'' False mirror_world = Inr (ok, w')
           \<and> git_runs w' =
               [[''/usr/bin/git'', ''-C'', ''/c/m'', ''fetch'', ''--all''],
                [''/usr/bin/git'', ''-C'', ''/c/m'', ''remote'', ''set-url'', ''origin'',
                 ''https://x.example/r.git'']])
   \<and> \<not> path_exists (fs demo_world) ''/c/m''
   \<and> (\<exists>w'. populate_cache ''https://x.example/r.git'' ''/c/m'' ''/usr/bin/git''
              ''https://x.example/r.git'' ''/c'' False demo_world = Inr (False, w')
           \<and> git_runs w' =
               [[''/usr/bin/git'', ''clone'', ''--mirror'', ''https://x.example/r.git'', ''/c/m'']])"
proof -
  have a: "\<not> path_exists (fs demo_world) ''/c/m''"
    by (rule demo_world_clone_fails)
  have b: "path_exists (fs mirror_world) ''/c/m''"
    by (simp add: path_exists_def mirror_world_def)
  have g: "git_runs demo_world = []" "git_runs mirror_world = []"
    by (simp_all add: git_runs_def demo_world_def mirror_world_def)
  let ?w' = "error (''Failed to cache '' @ ''https://x.example/r.git'') False
                  (snd (run_git_command ''/usr/bin/git'' [''clone'', ''--mirror'', ''https://x.example/r.git'', ''/c/m''] False
                          (info (''Caching: '' @ ''https://x.example/r.git'') False demo_world)))"
  have c: "populate_cache ''https://x.example/r.git'' ''/c/m'' ''/usr/bin/git''
              ''https://x.example/r.git'' ''/c'' False demo_world = Inr (False, ?w')"
    by (rule populate_cache_clone_failed [OF demo_world_clone_fails])
  from populate_cache_actions [OF c] a g
  have c': "git_runs ?w' = [[''/usr/bin/git'', ''clone'', ''--mirror'', ''https://x.example/r.git'', ''/c/m'']]"
    by simp
  from mirror_world_returns obtain ok w' where
    d: "populate_cache ''https://x.example/r.git'' ''/c/m'' ''/usr/bin/git''
              ''/home/u/r'' ''/c'' False mirror_world = Inr (ok, w')"
    by blast
  from populate_cache_actions [OF d] b g
  have "git_runs w' =
               [[''/usr/bin/git'', ''-C'', ''/c/m'', ''fetch'', ''--all''],
                [''/usr/bin/git'', ''-C'', ''/c/m'', ''remote'', ''set-url'', ''origin'',
                 ''https://x.example/r.git'']]"
    by simp
  with a b c c' d show ?thesis by blast
qed

section \<open>The loop over the arguments\<close>

lemma process_arg_missing:
  "\<not> path_exists (fs w) (Path arg) \<Longrightarrow>
     process_arg h g c arg w = Inr (error (''Path does not exist: '' @ arg) True w)"
  by (simp add: process_arg_def Let_def)

lemma Path_url_demo: "Path ''https://x.example/r.git'' = ''https:/x.example/r.git''"
  by (simp add: Path_def path_root_def path_parts_def)

text \<open>
  C1. The loop of \<open>main\<close> first tests whether the argument exists as a path and skips
  it when it does not, so an argument that is a URL never reaches the branch that treats
  it as one: here \<open>https://x.example/r.git\<close> is reported as a missing path, no command
  is run and nothing is written.
\<close>

theorem url_argument_is_skipped:
  "process_arg demo_host ''/usr/bin/git'' ''/c'' ''https://x.example/r.git'' demo_world
     = Inr (error ''Path does not exist: https://x.example/r.git'' True demo_world)
   \<and> git_runs (error ''Path does not exist: https://x.example/r.git'' True demo_world) = []
   \<and> writes (error ''Path does not exist: https://x.example/r.git'' True demo_world) = []"
proof -
  have "\<not> path_exists (fs demo_world) (Path ''https://x.example/r.git'')"
    by (simp add: Path_url_demo path_exists_def demo_world_def demo_fs_def)
  note p = process_arg_missing [OF this, of demo_host "''/usr/bin/git''" "''/c''"]
  have g: "git_runs demo_world = []" "writes demo_world = []"
    by (simp_all add: git_runs_def writes_def demo_world_def)
  from p g show ?thesis by simp
qed

text \<open>
  C6. For a local working copy whose \<open>git remote get-url origin\<close> ends with a return
  code other than 0, the loop body returns normally: that command is the only one run,
  nothing is written, the file system is as the command left it, the warning is on the
  error stream, and the loop goes on with the remaining arguments.
\<close>

theorem no_origin_is_skipped:
  assumes "is_local_repo arg w"
    and "fst (exec w [g, ''-C'', Path arg, ''remote'', ''get-url'', ''origin''] (fs w)) = Exited rc out"
    and "rc \<noteq> 0"
  shows "\<exists>w'. process_arg h g c arg w = Inr w'
           \<and> git_runs w' = git_runs w @ [[g, ''-C'', Path arg, ''remote'', ''get-url'', ''origin'']]
           \<and> writes w' = writes w
           \<and> fs w' = snd (exec w [g, ''-C'', Path arg, ''remote'', ''get-url'', ''origin''] (fs w))
           \<and> Stderr (''[populate_git_clone_cache][ERROR] WARNING: No origin remote in '' @ arg @ '', skipping'')
                \<in> set (trace w')
           \<and> process_args h g c (arg # rest) w = process_args h g c rest w'"
proof -
  let ?cmd = "[g, ''-C'', Path arg, ''remote'', ''get-url'', ''origin'']"
  let ?w0 = "info (''Getting origin URL for repo: '' @ Path arg) False w"
  obtain r w2 where rp: "run_process ?cmd ?w0 = (r, w2)"
    by (cases "run_process ?cmd ?w0")
  note o = run_process_obs [OF rp]
  from o(4) assms(2) have r: "r = Exited rc out" by simp
  from assms(1) have ex: "path_exists (fs w) (Path arg)"
    by (auto simp: is_local_repo_def is_dir_def path_exists_def)
  let ?w' = "error (''WARNING: No origin remote in '' @ arg @ '', skipping'') True w2"
  have pa: "process_arg h g c arg w = Inr ?w'"
    using ex assms(1,3) rp r by (simp add: process_arg_def get_origin_url_def Let_def)
  have "Stderr (''[populate_git_clone_cache][ERROR] WARNING: No origin remote in '' @ arg @ '', skipping'')
          \<in> set (trace ?w')"
    by (simp add: error_def emit_def Let_def)
  with pa o show ?thesis by simp
qed

text \<open>
  C9. \<open>main\<close> ends with the exit code 1 when no usable git is found and when there is
  no argument after the program name. With a usable git and at least one argument the
  exit code is 0 in every run that no uncaught exception cuts short: no failure of a
  single reference leads to \<open>sys.exit\<close>.
\<close>

theorem main_exit_code:
  "(usable_git h = None \<longrightarrow> exit_code (main h argv w) = 1)
   \<and> (length argv < 2 \<longrightarrow> exit_code (main h argv w) = 1)
   \<and> (usable_git h \<noteq> None \<and> 2 \<le> length argv \<and> (\<forall>e. main h argv w \<noteq> Uncaught e)
        \<longrightarrow> exit_code (main h argv w) = 0)"
  by (auto simp: main_def Let_def split: option.splits sum.splits list.splits)

lemma Path_repo_demo: "Path ''/home/u/r'' = ''/home/u/r''"
  "joinpath ''/home/u/r'' ''.git'' = ''/home/u/r/.git''"
  by (simp_all add: joinpath_def posix_join_def Path_def path_root_def path_parts_def)

theorem no_origin_is_skipped_witness:
  "is_local_repo ''/home/u/r'' no_origin_world
   \<and> (\<exists>w'. process_arg demo_host ''/usr/bin/git'' ''/c'' ''/home/u/r'' no_origin_world = Inr w'
         \<and> git_runs w' = [[''/usr/bin/git'', ''-C'', ''/home/u/r'', ''remote'', ''get-url'', ''origin'']]
         \<and> writes w' = []
         \<and> fs w' = fs no_origin_world)"
proof -
  have l: "is_local_repo ''/home/u/r'' no_origin_world"
    by (simp add: is_local_repo_def Path_repo_demo is_dir_def path_exists_def no_origin_world_def)
  have e: "fst (exec no_origin_world [''/usr/bin/git'', ''-C'', Path ''/home/u/r'', ''remote'', ''get-url'', ''origin'']
             (fs no_origin_world)) = Exited 2 []"
    by (simp add: no_origin_world_def)
  have n: "(2::int) \<noteq> 0" by simp
  have g: "git_runs no_origin_world = []" "writes no_origin_world = []"
    "snd (exec no_origin_world [''/usr/bin/git'', ''-C'', Path ''/home/u/r'', ''remote'', ''get-url'', ''origin'']
             (fs no_origin_world)) = fs no_origin_world"
    by (simp_all add: git_runs_def writes_def no_origin_world_def)
  from no_origin_is_skipped [OF l e n, of demo_host "''/c''" "[]"] g l
  show ?thesis by (simp add: Path_repo_demo) blast
qed

lemma usable_git_demo: "usable_git demo_host = Some ''/usr/bin/git''"
  by (simp add: usable_git_def find_real_git_def demo_host_def Let_def
        joinpath_def posix_join_def Path_def path_root_def path_parts_def)

lemma main_demo_returns:
  "\<exists>w'. main demo_host [''populate'', ''https://x.example/r.git''] demo_world = Returned w'"
proof -
  have c: "Path ''/c'' = ''/c''"
    by (simp add: Path_def path_root_def path_parts_def)
  have m: "mkdir_parents ''/c'' w = Inr w" if "node (fs w) ''/c'' = Some Directory" for w
    using that by (simp add: mkdir_parents_def)
  have lp: "joinpath ''/c'' ''populate_git_clone_cache.log'' = ''/c/populate_git_clone_cache.log''"
    by (simp add: joinpath_def posix_join_def Path_def path_root_def path_parts_def)
  have pp: "path_parent ''/c/populate_git_clone_cache.log'' = ''/c''"
    by (simp add: path_parent_def path_root_def path_parts_def)
  define w1 where "w1 = info ''real_git resolved to: /usr/bin/git'' False demo_world"
  have n1: "node (fs w1) ''/c'' = Some Directory"
    by (simp add: w1_def demo_world_def demo_fs_def)
  have mk: "mkdir_parents ''/c'' w1 = Inr w1"
    by (rule m [OF n1])
  have nlp: "node (fs w1) ''/c/populate_git_clone_cache.log'' = None"
    and mw: "may_write (fs w1) ''/c/populate_git_clone_cache.log''"
    by (simp_all add: w1_def demo_world_def demo_fs_def)
  define w3 where "w3 = w1\<lparr>fs := (fs w1)\<lparr>node := (node (fs w1))
      (''/c/populate_git_clone_cache.log'' \<mapsto> Regular Unparseable)\<rparr>\<rparr>"
  have gl: "get_log_file ''/c'' w1 = Inr w3"
    by (simp add: get_log_file_def lp pp mk nlp mw w3_def)
  have n3: "node (fs w3) ''https:/x.example/r.git'' = None"
    by (simp add: w3_def w1_def demo_world_def demo_fs_def)
  from n3 have "\<not> path_exists (fs w3) (Path ''https://x.example/r.git'')"
    by (simp add: Path_url_demo path_exists_def)
  from process_arg_missing [OF this]
  have "process_args demo_host ''/usr/bin/git'' ''/c'' [''https://x.example/r.git''] w3
          = Inr (error (''Path does not exist: '' @ ''https://x.example/r.git'') True w3)"
    by simp
  moreover have fg: "find_real_git demo_host = Some ''/usr/bin/git''"
    using usable_git_demo by (simp add: usable_git_def split: option.splits if_splits)
  moreover have "environ_cache_dir demo_host = Some ''/c''"
    by (simp add: demo_host_def)
  ultimately show ?thesis
    using gl mk by (simp add: main_def usable_git_demo Let_def c w1_def [symmetric])
qed

theorem main_exit_code_witness:
  "usable_git (demo_host\<lparr>which_git := None\<rparr>) = None
   \<and> exit_code (main (demo_host\<lparr>which_git := None\<rparr>) [''populate'', ''/home/u/r''] demo_world) = 1
   \<and> length [''populate''] < 2
   \<and> exit_code (main demo_host [''populate''] demo_world) = 1
   \<and> usable_git demo_host \<noteq> None
   \<and> (2::nat) \<le> length [''populate'', ''https://x.example/r.git'']
   \<and> (\<forall>e. main demo_host [''populate'', ''https://x.example/r.git''] demo_world \<noteq> Uncaught e)
   \<and> exit_code (main demo_host [''populate'', ''https://x.example/r.git''] demo_world) = 0"
proof -
  have a: "usable_git (demo_host\<lparr>which_git := None\<rparr>) = None"
    by (simp add: usable_git_def find_real_git_def demo_host_def Let_def)
  have b: "length [''populate''] < 2" by simp
  have c: "usable_git demo_host \<noteq> None" by (simp add: usable_git_demo)
  have d: "(2::nat) \<le> length [''populate'', ''https://x.example/r.git'']" by simp
  have e: "\<forall>e. main demo_host [''populate'', ''https://x.example/r.git''] demo_world \<noteq> Uncaught e"
    using main_demo_returns by auto
  from main_exit_code [of "demo_host\<lparr>which_git := None\<rparr>" "[''populate'', ''/home/u/r'']" demo_world] a
  have a': "exit_code (main (demo_host\<lparr>which_git := None\<rparr>) [''populate'', ''/home/u/r''] demo_world) = 1"
    by blast
  from main_exit_code [of demo_host "[''populate'']" demo_world] b
  have b': "exit_code (main demo_host [''populate''] demo_world) = 1"
    by blast
  from main_exit_code [of demo_host "[''populate'', ''https://x.example/r.git'']" demo_world] c d e
  have c': "exit_code (main demo_host [''populate'', ''https://x.example/r.git''] demo_world) = 0"
    by blast
  from a a' b b' c d e c' show ?thesis by blast
qed

section \<open>Repeating an index update\<close>

lemma read_mapping_fs_only:
  assumes "fs a = fs b"
  shows "fst (read_mapping p lf a) = fst (read_mapping p lf b)"
  using assms by (simp add: read_mapping_def split: sum.splits)

lemma read_mapping_cases:
  "read_mapping p lf w = (m, w1) \<Longrightarrow>
     (m = JObj [] \<and> \<not> (may_read (fs w) p \<and> (\<exists>v. node (fs w) p = Some (Regular (Doc v)))))
     \<or> (w1 = w \<and> may_read (fs w) p \<and> node (fs w) p = Some (Regular (Doc m)))"
  by (auto simp: read_mapping_def path_exists_def open_read_def json_load_def
           split: if_splits sum.splits option.splits fnode.splits content.splits)

lemma written_doc_sorted:
  "sort_keys (JObj al) = JObj items' \<Longrightarrow> sorted (map fst items')"
  by auto

lemma written_doc_entry:
  "sort_keys (JObj (dict_set u (JStr k) items)) = JObj items' \<Longrightarrow> map_of items' u = Some (JStr k)"
  by (auto simp: map_of_sort_key map_of_map_snd map_of_dict_set)

lemma update_twice:
  assumes "update_directory_json c u k lf w = Inr w'"
  shows "\<exists>w''. update_directory_json c u k lf w' = Inr w'' \<and> fs w'' = fs w'
           \<and> (may_read (fs w') (joinpath c ''directory.json'') \<and> writes w' \<noteq> writes w \<longrightarrow> w'' = w')"
proof -
  let ?p = "joinpath c ''directory.json''"
  obtain m w1 where rm: "read_mapping ?p lf w = (m, w1)"
    by (cases "read_mapping ?p lf w")
  note ro = read_mapping_obs [OF rm]
  from assms rm obtain items where m: "m = JObj items"
    by (cases m) (simp_all add: update_directory_json_def Let_def)
  show ?thesis
  proof (cases "map_of items u = Some (JStr k)")
    case True
    with assms rm m have w': "w' = w1" by (simp add: update_directory_json_def Let_def)
    from True have "items \<noteq> []" by auto
    with read_mapping_cases [OF rm] m have "w1 = w" by auto
    with w' assms ro show ?thesis by auto
  next
    case False
    let ?new = "JObj (dict_set u (JStr k) items)"
    show ?thesis
    proof (cases "write_json ?p ?new w1")
      case (Inl e)
      with assms rm m False have w': "w' = error (''Failed to write directory.json: '' @ str_exn e) lf w1"
        by (simp add: update_directory_json_def Let_def)
      then have fs': "fs w' = fs w" and wr: "writes w' = writes w" using ro by simp_all
      obtain m2 w2 where rm2: "read_mapping ?p lf w' = (m2, w2)"
        by (cases "read_mapping ?p lf w'")
      from read_mapping_fs_only [OF fs', of ?p lf] rm rm2 m have m2: "m2 = JObj items" by simp
      note ro2 = read_mapping_obs [OF rm2]
      from Inl have "node (fs w1) ?p = Some Directory \<or> \<not> may_write (fs w1) ?p"
        by (auto simp: write_json_def split: if_splits)
      with ro ro2 fs' have "\<exists>e'. write_json ?p ?new w2 = Inl e'"
        by (auto simp: write_json_def)
      then obtain e' where "write_json ?p ?new w2 = Inl e'" ..
      with rm2 m2 False
      have "update_directory_json c u k lf w' = Inr (error (''Failed to write directory.json: '' @ str_exn e') lf w2)"
        by (simp add: update_directory_json_def Let_def)
      with ro2 wr show ?thesis by simp
    next
      case (Inr w2)
      with assms rm m False have w': "w' = info (''Updated directory.json for '' @ u) lf w2"
        by (simp add: update_directory_json_def Let_def)
      from Inr have nd: "node (fs w1) ?p \<noteq> Some Directory" and mw: "may_write (fs w1) ?p"
        and fs2: "fs w2 = (fs w1)\<lparr>node := (node (fs w1))(?p \<mapsto> Regular (Doc (sort_keys ?new)))\<rparr>"
        by (auto simp: write_json_def split: if_splits)
      from w' fs2 ro have fs': "fs w' = (fs w)\<lparr>node := (node (fs w))(?p \<mapsto> Regular (Doc (sort_keys ?new)))\<rparr>"
        by simp
      obtain items' where it: "sort_keys ?new = JObj items'" by simp
      have ent: "map_of items' u = Some (JStr k)"
        by (rule written_doc_entry [OF it])
      show ?thesis
      proof (cases "may_read (fs w') ?p")
        case True
        then have "read_mapping ?p lf w' = (JObj items', w')"
          using fs' it by (simp add: read_mapping_def path_exists_def open_read_def json_load_def)
        with ent have "update_directory_json c u k lf w' = Inr w'"
          by (simp add: update_directory_json_def Let_def)
        then show ?thesis by simp
      next
        case nr: False
        then have nr0: "\<not> may_read (fs w) ?p" using fs' by simp
        with read_mapping_cases [OF rm] m have e0: "items = []" by auto
        let ?w1' = "error (''Failed to read directory.json: '' @ str_exn PermissionError) lf w'"
        from nr fs' have rm2: "read_mapping ?p lf w' = (JObj [], ?w1')"
          by (simp add: read_mapping_def path_exists_def open_read_def)
        have "\<exists>w3. write_json ?p (JObj (dict_set u (JStr k) [])) ?w1' = Inr w3 \<and> fs w3 = fs w'"
          using fs' mw ro e0 by (simp add: write_json_def fun_upd_idem)
        then obtain w3 where "write_json ?p (JObj (dict_set u (JStr k) [])) ?w1' = Inr w3" "fs w3 = fs w'"
          by blast
        with rm2 have "update_directory_json c u k lf w' = Inr (info (''Updated directory.json for '' @ u) lf w3)"
          by (simp add: update_directory_json_def Let_def)
        with \<open>fs w3 = fs w'\<close> nr show ?thesis by simp
      qed
    qed
  qed
qed

lemma update_no_write_when_correct:
  assumes "may_read (fs w) (joinpath c ''directory.json'')"
    and "index_entry (fs w) (joinpath c ''directory.json'') u = Some (JStr k)"
  shows "update_directory_json c u k lf w = Inr w"
proof -
  from assms(2) obtain items where
    "node (fs w) (joinpath c ''directory.json'') = Some (Regular (Doc (JObj items)))"
    "map_of items u = Some (JStr k)"
    by (auto simp: index_entry_def split: option.splits fnode.splits content.splits json.splits)
  with assms(1) show ?thesis
    by (simp add: update_directory_json_def read_mapping_def path_exists_def open_read_def
          json_load_def Let_def)
qed

lemma update_write_shape:
  assumes "update_directory_json c u k lf w = Inr w'"
  shows "(writes w' = writes w \<and> fs w' = fs w)
       \<or> (writes w' = writes w @ [joinpath c ''directory.json'']
          \<and> (\<exists>items'. node (fs w') (joinpath c ''directory.json'') = Some (Regular (Doc (JObj items')))
                \<and> sorted (map fst items') \<and> map_of items' u = Some (JStr k)))"
proof -
  let ?p = "joinpath c ''directory.json''"
  obtain m w1 where rm: "read_mapping ?p lf w = (m, w1)"
    by (cases "read_mapping ?p lf w")
  note ro = read_mapping_obs [OF rm]
  from assms rm obtain items where m: "m = JObj items"
    by (cases m) (simp_all add: update_directory_json_def Let_def)
  let ?new = "JObj (dict_set u (JStr k) items)"
  show ?thesis
  proof (cases "map_of items u \<noteq> Some (JStr k) \<and> (\<exists>w2. write_json ?p ?new w1 = Inr w2)")
    case False
    with assms rm m have "w' = w1 \<or> (\<exists>x. w' = error x lf w1)"
      by (auto simp: update_directory_json_def Let_def split: sum.splits if_splits)
    with ro show ?thesis by auto
  next
    case True
    then obtain w2 where wj: "write_json ?p ?new w1 = Inr w2" by blast
    with True assms rm m have w': "w' = info (''Updated directory.json for '' @ u) lf w2"
      by (simp add: update_directory_json_def Let_def)
    from wj have fs2: "fs w2 = (fs w1)\<lparr>node := (node (fs w1))(?p \<mapsto> Regular (Doc (sort_keys ?new)))\<rparr>"
      by (auto simp: write_json_def split: if_splits)
    obtain items' where it: "sort_keys ?new = JObj items'" by simp
    from w' fs2 it have "node (fs w') ?p = Some (Regular (Doc (JObj items')))" by simp
    moreover from w' write_json_obs(3) [OF wj] ro have "writes w' = writes w @ [?p]" by simp
    ultimately show ?thesis
      using written_doc_sorted [OF it] written_doc_entry [OF it] by blast
  qed
qed

text \<open>
  C5. For an index update that returns: when the file is readable and already holds the
  key for the URL, the world is left as it was, with no write and no message. Otherwise
  the update either writes nothing and leaves the file system unchanged, or makes one
  write of the index file, after which the file holds an object whose keys are in sorted
  order and whose entry for the URL is the key. Repeating the same update on the result
  returns and leaves the file system as it is; after a write of a readable file the
  repetition does nothing at all.
\<close>

theorem index_update_idempotent:
  assumes "update_directory_json c u k lf w = Inr w'"
  shows "(may_read (fs w) (joinpath c ''directory.json'')
          \<and> index_entry (fs w) (joinpath c ''directory.json'') u = Some (JStr k) \<longrightarrow> w' = w)
       \<and> ((writes w' = writes w \<and> fs w' = fs w)
          \<or> (writes w' = writes w @ [joinpath c ''directory.json'']
             \<and> (\<exists>items'. node (fs w') (joinpath c ''directory.json'') = Some (Regular (Doc (JObj items')))
                   \<and> sorted (map fst items') \<and> map_of items' u = Some (JStr k))))
       \<and> (\<exists>w''. update_directory_json c u k lf w' = Inr w'' \<and> fs w'' = fs w'
              \<and> (may_read (fs w') (joinpath c ''directory.json'') \<and> writes w' \<noteq> writes w
                   \<longrightarrow> w'' = w'))"
proof (intro conjI impI)
  assume "may_read (fs w) (joinpath c ''directory.json'')
          \<and> index_entry (fs w) (joinpath c ''directory.json'') u = Some (JStr k)"
  then have "update_directory_json c u k lf w = Inr w"
    by (simp add: update_no_write_when_correct)
  with assms show "w' = w" by simp
next
  show "(writes w' = writes w \<and> fs w' = fs w)
          \<or> (writes w' = writes w @ [joinpath c ''directory.json'']
             \<and> (\<exists>items'. node (fs w') (joinpath c ''directory.json'') = Some (Regular (Doc (JObj items')))
                   \<and> sorted (map fst items') \<and> map_of items' u = Some (JStr k)))"
    by (rule update_write_shape [OF assms])
next
  show "\<exists>w''. update_directory_json c u k lf w' = Inr w'' \<and> fs w'' = fs w'
              \<and> (may_read (fs w') (joinpath c ''directory.json'') \<and> writes w' \<noteq> writes w
                   \<longrightarrow> w'' = w')"
    by (rule update_twice [OF assms])
qed

theorem index_update_idempotent_witness:
  "update_directory_json ''/c'' ''https://a.example/r.git'' ''k1'' True demo_world = Inr demo_world
   \<and> (\<exists>w'. update_directory_json ''/c'' ''https://c.example/r.git'' ''k3'' True demo_world = Inr w'
         \<and> writes w' = [''/c/directory.json'']
         \<and> update_directory_json ''/c'' ''https://c.example/r.git'' ''k3'' True w' = Inr w')"
proof -
  have r: "may_read (fs demo_world) (joinpath ''/c'' ''directory.json'')"
    by (simp add: demo_world_def demo_fs_def)
  have e: "index_entry (fs demo_world) (joinpath ''/c'' ''directory.json'') ''https://a.example/r.git''
             = Some (JStr ''k1'')"
    by (simp add: joinpath_demo index_entry_def demo_world_def demo_fs_def demo_items_def)
  have a: "update_directory_json ''/c'' ''https://a.example/r.git'' ''k1'' True demo_world = Inr demo_world"
    by (rule update_no_write_when_correct [OF r e])
  have h: "index_of (fs demo_world) (joinpath ''/c'' ''directory.json'') = Some demo_items"
    by (simp add: joinpath_demo index_of_def open_read_def demo_world_def demo_fs_def)
  define W where "W = info (''Updated directory.json for '' @ ''https://c.example/r.git'') True
     (emit [Wrote ''/c/directory.json'']
        (demo_world\<lparr>fs := (fs demo_world)\<lparr>node := (node (fs demo_world))
           (''/c/directory.json'' \<mapsto> Regular (Doc (sort_keys
              (JObj (dict_set ''https://c.example/r.git'' (JStr ''k3'') demo_items)))))\<rparr>\<rparr>))"
  have n: "map_of demo_items ''https://c.example/r.git'' \<noteq> Some (JStr ''k3'')"
    by (simp add: demo_items_def)
  have nd: "node (fs demo_world) ''/c/directory.json'' \<noteq> Some Directory"
    and mw: "may_write (fs demo_world) ''/c/directory.json''"
    by (simp_all add: demo_world_def demo_fs_def)
  have u: "update_directory_json ''/c'' ''https://c.example/r.git'' ''k3'' True demo_world = Inr W"
    using n nd mw read_mapping_index [OF h, of True]
    by (simp add: update_directory_json_def write_json_def Let_def joinpath_demo W_def)
  have w0: "writes demo_world = []"
    by (simp add: writes_def demo_world_def)
  have wW: "writes W = [''/c/directory.json'']"
    by (simp add: W_def writes_emit w0)
  have rW: "may_read (fs W) (joinpath ''/c'' ''directory.json'')"
    by (simp add: W_def demo_world_def demo_fs_def)
  from index_update_idempotent [OF u] rW wW w0
  have "update_directory_json ''/c'' ''https://c.example/r.git'' ''k3'' True W = Inr W"
    by auto
  with a u wW show ?thesis by blast
qed

section \<open>Discovery\<close>

lemma loop_body_once:
  "loop_body repos y = (if has_git y then repos @ [fst y] else repos)"
proof -
  have "''.git'' \<notin> set (map fst (filter keep (snd y)))"
    by (auto simp: keep_def)
  then show ?thesis
    by (simp add: loop_body_def has_git_def Let_def)
qed

lemma foldl_loop_body:
  "foldl loop_body acc ys = acc @ map fst (filter has_git ys)"
  by (induction ys arbitrary: acc) (simp_all add: loop_body_once)

lemma find_repos_filter:
  "find_repos root_dir t = map fst (filter has_git (walk root_dir t))"
  by (simp add: find_repos_def foldl_loop_body)

lemma walk_clean:
  "dirpath = foldl posix_join root_dir ds \<Longrightarrow> clean t ds e0 \<Longrightarrow> listing e = listing e0 \<Longrightarrow>
   (p, dirs) \<in> set (walk dirpath e) \<Longrightarrow>
   \<exists>ds' e' es. clean t ds' e' \<and> p = foldl posix_join root_dir ds' \<and> listing e' = Some es
      \<and> dirs = filter (\<lambda>d. entry_is_dir (snd d)) es"
proof (induction dirpath e arbitrary: ds e0 rule: walk.induct)
  case (1 dirpath es)
  from "1.prems"(3) have l0: "listing e0 = Some es" by simp
  from "1.prems"(4) consider
      (here) "p = dirpath" "dirs = filter (\<lambda>d. entry_is_dir (snd d)) es"
    | (below) d where "d \<in> set es" "keep d" "\<not> islink (snd d)"
        "(p, dirs) \<in> set (walk (posix_join dirpath (fst d)) (snd d))"
    by (auto split: if_splits)
  then show ?case
  proof cases
    case here
    with "1.prems"(1,2) l0 show ?thesis by blast
  next
    case below
    from below(2) have n: "fst d \<noteq> ''.git''" "fst d \<noteq> ''node_modules''"
      by (auto simp: keep_def)
    have c: "clean t (ds @ [fst d]) (snd d)"
      using "1.prems"(2) l0 below(1) n below(3)
      by (intro clean_step [where e = e0 and es = es]) auto
    have pth: "posix_join dirpath (fst d) = foldl posix_join root_dir (ds @ [fst d])"
      using "1.prems"(1) by simp
    from below(1,2) have m: "d \<in> set (filter keep (filter (\<lambda>d. entry_is_dir (snd d)) es))"
      using below(4) by (cases "snd d") (auto simp: keep_def)
    show ?thesis
      by (rule "1.IH" [OF m below(3) pth c refl below(4)])
  qed
next
  case (2 dirpath e)
  from "2.prems" show ?case
    by (intro "2.IH" [of ds e0]) simp_all
qed simp_all

text \<open>
  C7. Every directory that the traversal visits, and so every path that discovery
  returns, lies under the root at a chain of names none of which is \<open>.git\<close> or
  \<open>node_modules\<close> and whose entries are real directories, none a symbolic link. A
  working copy that can only be reached through such a name or through a link is
  therefore not in the output.
\<close>

theorem discovery_never_enters_excluded:
  "(\<forall>y \<in> set (walk root_dir t).
      \<exists>ds e es. clean t ds e \<and> fst y = foldl posix_join root_dir ds \<and> listing e = Some es
         \<and> snd y = filter (\<lambda>d. entry_is_dir (snd d)) es)
   \<and> (\<forall>p \<in> set (find_repos root_dir t).
      \<exists>ds e es. clean t ds e \<and> p = foldl posix_join root_dir ds \<and> listing e = Some es
         \<and> ''.git'' \<in> fst ` set (filter (\<lambda>d. entry_is_dir (snd d)) es))"
proof (intro conjI ballI)
  fix y assume "y \<in> set (walk root_dir t)"
  then have "(fst y, snd y) \<in> set (walk root_dir t)" by simp
  from walk_clean [OF _ clean_top refl this, of root_dir]
  show "\<exists>ds e es. clean t ds e \<and> fst y = foldl posix_join root_dir ds \<and> listing e = Some es
         \<and> snd y = filter (\<lambda>d. entry_is_dir (snd d)) es"
    by simp
next
  fix p assume "p \<in> set (find_repos root_dir t)"
  then obtain dirs where y: "(p, dirs) \<in> set (walk root_dir t)" and g: "has_git (p, dirs)"
    by (auto simp: find_repos_filter)
  from walk_clean [OF _ clean_top refl y, of root_dir]
  obtain ds e es where c: "clean t ds e" "p = foldl posix_join root_dir ds" "listing e = Some es"
    and d: "dirs = filter (\<lambda>d. entry_is_dir (snd d)) es"
    by auto
  from g d have "''.git'' \<in> fst ` set (filter (\<lambda>d. entry_is_dir (snd d)) es)"
    by (simp add: has_git_def)
  with c show "\<exists>ds e es. clean t ds e \<and> p = foldl posix_join root_dir ds \<and> listing e = Some es
         \<and> ''.git'' \<in> fst ` set (filter (\<lambda>d. entry_is_dir (snd d)) es)"
    by blast
qed

lemma posix_join_good:
  assumes "d \<noteq> []" "CHR ''/'' \<notin> set d"
  shows "posix_join p d = slashed p @ d"
proof -
  from assms have "take 1 d \<noteq> ''/''" by (cases d) auto
  then show ?thesis by (simp add: posix_join_def slashed_def)
qed

lemma slashed_proper:
  assumes "d \<noteq> []" "CHR ''/'' \<notin> set d"
  shows "slashed (s @ d) = s @ d @ ''/''"
proof -
  from assms(1) have "last d \<in> set d" by simp
  with assms(2) have "last d \<noteq> CHR ''/''" by auto
  with assms(1) show ?thesis by (simp add: slashed_def)
qed

lemma walk_below:
  "wf_entry e \<Longrightarrow> (x, dirs) \<in> set (walk q e) \<Longrightarrow>
     x = q \<or> (\<exists>d r. d \<noteq> [] \<and> CHR ''/'' \<notin> set d \<and> (r = [] \<or> hd r = CHR ''/'') \<and> x = slashed q @ d @ r)"
proof (induction q e rule: walk.induct)
  case (1 dirpath es)
  from "1.prems"(2) consider
      (here) "x = dirpath"
    | (below) d where "d \<in> set es" "keep d" "\<not> islink (snd d)" "entry_is_dir (snd d)"
        "(x, dirs) \<in> set (walk (posix_join dirpath (fst d)) (snd d))"
    by (auto split: if_splits)
  then show ?case
  proof cases
    case here
    then show ?thesis by simp
  next
    case below
    from "1.prems"(1) below(1) have gd: "fst d \<noteq> []" "CHR ''/'' \<notin> set (fst d)" and wf: "wf_entry (snd d)"
      by auto
    from below have m: "d \<in> set (filter keep (filter (\<lambda>d. entry_is_dir (snd d)) es))" by simp
    note pj = posix_join_good [OF gd, of dirpath]
    from "1.IH" [OF m below(3) wf below(5)]
    have "x = slashed dirpath @ fst d
       \<or> (\<exists>d' r. x = (slashed dirpath @ fst d @ ''/'') @ d' @ r)"
      unfolding pj slashed_proper [OF gd] by auto
    then show ?thesis
    proof
      assume "x = slashed dirpath @ fst d"
      with gd show ?thesis by (intro disjI2 exI [of _ "fst d"] exI [of _ "[]"]) simp
    next
      assume "\<exists>d' r. x = (slashed dirpath @ fst d @ ''/'') @ d' @ r"
      then obtain d' r where "x = slashed dirpath @ fst d @ (''/'' @ d' @ r)" by auto
      with gd show ?thesis by (intro disjI2 exI [of _ "fst d"] exI [of _ "''/'' @ d' @ r"]) simp
    qed
  qed
next
  case (2 dirpath e)
  then show ?case by simp
qed simp_all

lemma takeWhile_name:
  assumes "CHR ''/'' \<notin> set d" "r = [] \<or> hd r = CHR ''/''"
  shows "takeWhile (\<lambda>c. c \<noteq> CHR ''/'') (d @ r) = d"
proof -
  from assms(1) have a: "\<forall>c \<in> set d. c \<noteq> CHR ''/''" by auto
  from assms(2) have "takeWhile (\<lambda>c. c \<noteq> CHR ''/'') r = []" by (cases r) auto
  with a show ?thesis by (simp add: takeWhile_append2)
qed

lemma child_paths:
  assumes "d \<noteq> []" "CHR ''/'' \<notin> set d" "wf_entry c" "(x, dirs) \<in> set (walk (posix_join q d) c)"
  shows "\<exists>r. (r = [] \<or> hd r = CHR ''/'') \<and> x = slashed q @ d @ r"
proof -
  from walk_below [OF assms(3,4)] consider "x = posix_join q d"
    | d' r where "x = slashed (posix_join q d) @ d' @ r" by blast
  then show ?thesis
  proof cases
    case 1
    then show ?thesis using posix_join_good [OF assms(1,2)] by simp
  next
    case 2
    then have "x = slashed q @ d @ (''/'' @ d' @ r)"
      using posix_join_good [OF assms(1,2)] slashed_proper [OF assms(1,2)] by simp
    then show ?thesis by (intro exI [of _ "''/'' @ d' @ r"]) simp
  qed
qed

lemma distinct_concat_map:
  assumes "distinct (map k xs)"
    and "\<And>x. x \<in> set xs \<Longrightarrow> distinct (f x)"
    and "\<And>x y. x \<in> set xs \<Longrightarrow> y \<in> set xs \<Longrightarrow> k x \<noteq> k y \<Longrightarrow> set (f x) \<inter> set (f y) = {}"
  shows "distinct (concat (map f xs))"
  using assms
proof (induction xs)
  case Nil
  then show ?case by simp
next
  case (Cons a xs)
  have "set (f a) \<inter> set (f y) = {}" if "y \<in> set xs" for y
  proof -
    from Cons.prems(1) that have "k a \<noteq> k y" by auto
    with Cons.prems(3) [of a y] that show ?thesis by simp
  qed
  moreover have "distinct (concat (map f xs))"
    using Cons.prems by (intro Cons.IH) auto
  ultimately show ?case using Cons.prems(2) [of a] by auto
qed

lemma length_slashed: "length p \<le> length (slashed p)"
  by (simp add: slashed_def)

lemma distinct_walk:
  "wf_entry e \<Longrightarrow> distinct (map fst (walk q e))"
proof (induction q e rule: walk.induct)
  case (1 dirpath es)
  let ?kept = "filter keep (filter (\<lambda>d. entry_is_dir (snd d)) es)"
  define f where "f = (\<lambda>d. map fst (if islink (snd d) then [] else walk (posix_join dirpath (fst d)) (snd d)))"
  have shape: "map fst (walk dirpath (Dir es)) = dirpath # concat (map f ?kept)"
    by (simp add: map_concat comp_def f_def)
  have good: "fst d \<noteq> []" "CHR ''/'' \<notin> set (fst d)" "wf_entry (snd d)" if "d \<in> set ?kept" for d
    using that "1.prems" by auto
  have paths: "\<exists>r. (r = [] \<or> hd r = CHR ''/'') \<and> x = slashed dirpath @ fst d @ r"
    if "d \<in> set ?kept" "x \<in> set (f d)" for d x
  proof -
    from that(2) obtain dirs where "(x, dirs) \<in> set (walk (posix_join dirpath (fst d)) (snd d))"
      unfolding f_def by (auto split: if_splits)
    from child_paths [OF good [OF that(1)] this] show ?thesis .
  qed
  have top: "dirpath \<notin> set (concat (map f ?kept))"
  proof
    assume "dirpath \<in> set (concat (map f ?kept))"
    then obtain d where d: "d \<in> set ?kept" "dirpath \<in> set (f d)"
      by auto
    from paths [OF d] obtain r where "dirpath = slashed dirpath @ fst d @ r" by blast
    then have "length dirpath = length (slashed dirpath) + length (fst d) + length r"
      by (metis length_append add.assoc)
    with length_slashed [of dirpath] good(1) [OF d(1)] show False by simp
  qed
  have each: "distinct (f d)" if "d \<in> set ?kept" for d
  proof (cases "islink (snd d)")
    case True
    then show ?thesis by (simp add: f_def)
  next
    case False
    with "1.IH" [OF that False good(3) [OF that]] show ?thesis by (simp add: f_def)
  qed
  have apart: "set (f d) \<inter> set (f d') = {}"
    if "d \<in> set ?kept" "d' \<in> set ?kept" "fst d \<noteq> fst d'" for d d'
  proof (rule ccontr)
    assume "set (f d) \<inter> set (f d') \<noteq> {}"
    then obtain x where "x \<in> set (f d)" "x \<in> set (f d')" by blast
    from paths [OF that(1) this(1)] paths [OF that(2) this(2)]
    obtain r r' where r: "r = [] \<or> hd r = CHR ''/''" "r' = [] \<or> hd r' = CHR ''/''"
      and "slashed dirpath @ fst d @ r = slashed dirpath @ fst d' @ r'"
      by auto
    then have "fst d @ r = fst d' @ r'" by simp
    then have "takeWhile (\<lambda>c. c \<noteq> CHR ''/'') (fst d @ r) = takeWhile (\<lambda>c. c \<noteq> CHR ''/'') (fst d' @ r')"
      by simp
    with takeWhile_name [OF good(2) [OF that(1)] r(1)] takeWhile_name [OF good(2) [OF that(2)] r(2)]
    have "fst d = fst d'" by simp
    with that(3) show False by simp
  qed
  have "distinct (map fst ?kept)"
    using "1.prems" by (simp add: distinct_map_filter)
  from distinct_concat_map [of fst ?kept f, OF this each apart]
  have "distinct (concat (map f ?kept))" by blast
  with top show ?case unfolding shape by simp
next
  case (2 dirpath e)
  then show ?case by simp
qed simp_all

text \<open>
  C8. The output of discovery is the list of the visited directories that have \<open>.git\<close>
  among their subdirectories, in the order of the traversal, each taken once per visit:
  the second test of the loop body never appends. In a tree whose names are those of a
  real file system no path occurs twice.
\<close>

theorem discovery_output_order:
  "find_repos root_dir t = map fst (filter has_git (walk root_dir t))
   \<and> (wf_entry t \<longrightarrow> distinct (find_repos root_dir t))"
proof
  show "find_repos root_dir t = map fst (filter has_git (walk root_dir t))"
    by (rule find_repos_filter)
  show "wf_entry t \<longrightarrow> distinct (find_repos root_dir t)"
    unfolding find_repos_filter by (auto intro: distinct_map_filter distinct_walk)
qed

lemma find_repos_demo: "find_repos ''/r'' demo_tree = [''/r/a'', ''/r/b/c'']"
  by (simp add: find_repos_filter has_git_def keep_def posix_join_def demo_tree_def)

theorem discovery_output_order_witness:
  "wf_entry demo_tree \<and> distinct (find_repos ''/r'' demo_tree)
   \<and> find_repos ''/r'' demo_tree = [''/r/a'', ''/r/b/c'']"
proof -
  have w: "wf_entry demo_tree"
    by (simp add: demo_tree_def)
  from discovery_output_order [of "''/r''" demo_tree] w
  have "distinct (find_repos ''/r'' demo_tree)" by blast
  with w find_repos_demo show ?thesis by blast
qed

theorem discovery_never_enters_excluded_witness:
  "''/r/a'' \<in> set (find_repos ''/r'' demo_tree)
   \<and> (\<exists>ds e es. clean demo_tree ds e \<and> ''/r/a'' = foldl posix_join ''/r'' ds \<and> listing e = Some es
         \<and> ''.git'' \<in> fst ` set (filter (\<lambda>d. entry_is_dir (snd d)) es))
   \<and> ''/r/a/node_modules/dep'' \<notin> set (find_repos ''/r'' demo_tree)
   \<and> ''/r/l'' \<notin> set (find_repos ''/r'' demo_tree)"
proof -
  have a: "''/r/a'' \<in> set (find_repos ''/r'' demo_tree)"
    by (simp add: find_repos_demo)
  from discovery_never_enters_excluded [of "''/r''" demo_tree] a
  have "\<exists>ds e es. clean demo_tree ds e \<and> ''/r/a'' = foldl posix_join ''/r'' ds \<and> listing e = Some es
         \<and> ''.git'' \<in> fst ` set (filter (\<lambda>d. entry_is_dir (snd d)) es)"
    by blast
  with a show ?thesis by (simp add: find_repos_demo)
qed

end
